theory Spec2Isabelle
  imports Complex_Main "HOL-Library.Sublist"
begin

section \<open>Pronunciation scoring and answer validation of the lesson runner\<close>

text \<open>
  This theory embeds the answer-checking logic of \<^verbatim>\<open>src/components/LessonRunner.tsx\<close>:
  the functions \<^verbatim>\<open>levenshtein\<close>, \<^verbatim>\<open>calculateSimilarity\<close>, \<^verbatim>\<open>getPronunciationFeedback\<close> and
  the event handler \<^verbatim>\<open>handleCheck\<close>, together with the enumeration \<^verbatim>\<open>QuestionType\<close> and the
  interface \<^verbatim>\<open>Question\<close> of the types module and \<^verbatim>\<open>reduceHearts\<close> of \<^verbatim>\<open>src/App.tsx\<close>.

  Modelling conventions.
  \<^item> A JavaScript string is a sequence of UTF-16 code units; \<^verbatim>\<open>length\<close>, \<^verbatim>\<open>charAt\<close>,
    \<^verbatim>\<open>===\<close> and \<^verbatim>\<open>includes\<close> work on code units. The edit distance and the similarity are
    polymorphic in the type of code units. The functions that look at particular characters
    (\<^verbatim>\<open>toLowerCase\<close>, the punctuation class, white space) are given on \<^typ>\<open>string\<close>, whose
    characters are the code units \<open>0\<close> to \<open>255\<close> (Basic Latin and Latin-1).
  \<^item> A value of type \<^verbatim>\<open>string | null\<close> is a \<^typ>\<open>string option\<close>; it is falsy when it is
    \<^verbatim>\<open>null\<close> or the empty string.
  \<^item> The numbers computed by \<^verbatim>\<open>calculateSimilarity\<close> are modelled as exact reals: the
    rounding of the double-precision division and multiplication of line 45 is not modelled.
    The lengths and distances are natural numbers.
  \<^item> The feedback messages, which are bilingual string literals and templates in the source,
    are the constructors of a datatype, one for each literal of the source, carrying the words
    the template interpolates.
  \<^item> The React state read and written by \<^verbatim>\<open>handleCheck\<close> is a record that the handler
    transforms; the sound effects are left out.
\<close>

subsection \<open>Edit distance: \<^verbatim>\<open>levenshtein\<close> (lines 18-39)\<close>

type_synonym matrix = "nat list list"

text \<open>
  The assignment \<^verbatim>\<open>arr[j] = v\<close>. Every assignment of \<^verbatim>\<open>levenshtein\<close> writes at an index that
  is at most the current length of the array, so it overwrites an element or appends one.
\<close>

definition assign :: "'a list \<Rightarrow> nat \<Rightarrow> 'a \<Rightarrow> 'a list" where
  "assign arr j v = (if j < length arr then arr[j := v] else arr @ [v])"

text \<open>First loop (lines 20-22): \<^verbatim>\<open>matrix[i] = [i]\<close> for \<open>i = 0, \<dots>, b.length\<close>.\<close>

definition init_rows :: "nat \<Rightarrow> matrix" where
  "init_rows n = fold (\<lambda>i matrix. assign matrix i [i]) [0..<Suc n] []"

text \<open>Second loop (lines 23-25): \<^verbatim>\<open>matrix[0][j] = j\<close> for \<open>j = 0, \<dots>, a.length\<close>.\<close>

definition init_cols :: "nat \<Rightarrow> matrix \<Rightarrow> matrix" where
  "init_cols k = fold (\<lambda>j matrix. matrix[0 := assign (matrix ! 0) j j]) [0..<Suc k]"

text \<open>The value stored in \<^verbatim>\<open>matrix[i][j]\<close> by the body of the nested loops (lines 28-35).\<close>

definition cell :: "'a list \<Rightarrow> 'a list \<Rightarrow> matrix \<Rightarrow> nat \<Rightarrow> nat \<Rightarrow> nat" where
  "cell a b matrix i j =
     (if b ! (i - 1) = a ! (j - 1) then matrix ! (i - 1) ! (j - 1)
      else min (matrix ! (i - 1) ! (j - 1) + 1)
               (min (matrix ! i ! (j - 1) + 1) (matrix ! (i - 1) ! j + 1)))"

text \<open>Inner loop (line 27), for \<open>j = 1, \<dots>, a.length\<close>, and outer loop (line 26), for
  \<open>i = 1, \<dots>, b.length\<close>.\<close>

definition fill_row :: "'a list \<Rightarrow> 'a list \<Rightarrow> nat \<Rightarrow> matrix \<Rightarrow> matrix" where
  "fill_row a b i =
     fold (\<lambda>j matrix. matrix[i := assign (matrix ! i) j (cell a b matrix i j)])
       [1..<Suc (length a)]"

definition fill :: "'a list \<Rightarrow> 'a list \<Rightarrow> matrix \<Rightarrow> matrix" where
  "fill a b = fold (fill_row a b) [1..<Suc (length b)]"

definition levenshtein :: "'a list \<Rightarrow> 'a list \<Rightarrow> nat" where
  "levenshtein a b =
     fill a b (init_cols (length a) (init_rows (length b))) ! length b ! length a"

subsection \<open>Similarity: \<^verbatim>\<open>calculateSimilarity\<close> (lines 41-46)\<close>

definition calculateSimilarity :: "'a list \<Rightarrow> 'a list \<Rightarrow> real" where
  "calculateSimilarity str1 str2 =
     (let len = max (length str1) (length str2) in
      if len = 0 then 100
      else let distance = levenshtein str1 str2 in
        ((real len - real distance) / real len) * 100)"

subsection \<open>The edit distance of the specification\<close>

text \<open>
  \<open>edits xs ys n\<close>: the string \<open>xs\<close> is turned into \<open>ys\<close> by a left-to-right pass that
  keeps characters and performs \<open>n\<close> unit-cost operations, each the substitution, the deletion
  or the insertion of one character. The edit distance is the least such \<open>n\<close>.
\<close>

inductive edits :: "'a list \<Rightarrow> 'a list \<Rightarrow> nat \<Rightarrow> bool" where
  Done: "edits [] [] 0"
| Keep: "edits xs ys n \<Longrightarrow> edits (x # xs) (x # ys) n"
| Substitute: "edits xs ys n \<Longrightarrow> edits (x # xs) (y # ys) (Suc n)"
| Delete: "edits xs ys n \<Longrightarrow> edits (x # xs) ys (Suc n)"
| Insert: "edits xs ys n \<Longrightarrow> edits xs (y # ys) (Suc n)"

definition edit_distance :: "'a list \<Rightarrow> 'a list \<Rightarrow> nat" where
  "edit_distance xs ys = (LEAST n. edits xs ys n)"

text \<open>Auxiliary functions of the correctness proof: the recurrence that the matrix tabulates,
  on prefix lengths and on lists, and the rows of the finished matrix.\<close>

fun lev_dist :: "'a list \<Rightarrow> 'a list \<Rightarrow> nat \<Rightarrow> nat \<Rightarrow> nat" where
  "lev_dist a b 0 j = j"
| "lev_dist a b (Suc i) 0 = Suc i"
| "lev_dist a b (Suc i) (Suc j) =
     (if b ! i = a ! j then lev_dist a b i j
      else min (lev_dist a b i j + 1)
             (min (lev_dist a b (Suc i) j + 1) (lev_dist a b i (Suc j) + 1)))"

fun ed :: "'a list \<Rightarrow> 'a list \<Rightarrow> nat" where
  "ed [] ys = length ys"
| "ed (x # xs) [] = Suc (length xs)"
| "ed (x # xs) (y # ys) =
     (if x = y then ed xs ys
      else min (ed xs ys + 1) (min (ed (x # xs) ys + 1) (ed xs (y # ys) + 1)))"

definition row :: "'a list \<Rightarrow> 'a list \<Rightarrow> nat \<Rightarrow> nat \<Rightarrow> nat list" where
  "row a b i j = map (lev_dist a b i) [0..<Suc j]"

definition upto_row :: "'a list \<Rightarrow> 'a list \<Rightarrow> nat \<Rightarrow> matrix" where
  "upto_row a b i =
     map (\<lambda>r. if r \<le> i then row a b r (length a) else [r]) [0..<Suc (length b)]"

subsection \<open>Strings\<close>

text \<open>Truthiness of a \<^verbatim>\<open>string | null\<close> value, and \<^verbatim>\<open>s || ""\<close>.\<close>

definition truthy :: "'a list option \<Rightarrow> bool" where
  "truthy s = (case s of None \<Rightarrow> False | Some t \<Rightarrow> t \<noteq> [])"

definition or_empty :: "'a list option \<Rightarrow> 'a list" where
  "or_empty s = (case s of None \<Rightarrow> [] | Some t \<Rightarrow> t)"

text \<open>
  \<^verbatim>\<open>toLowerCase\<close> on the code units below 256: the letters \<open>A\<close> to \<open>Z\<close> and the Latin-1
  capitals \<open>0xC0\<close> to \<open>0xDE\<close>, except the multiplication sign \<open>0xD7\<close>, move up by 32.
\<close>

definition lower_char :: "char \<Rightarrow> char" where
  "lower_char c =
     (let n = (of_char c :: nat) in
      if (65 \<le> n \<and> n \<le> 90) \<or> (192 \<le> n \<and> n \<le> 222 \<and> n \<noteq> 215) then char_of (n + 32)
      else c)"

definition toLowerCase :: "string \<Rightarrow> string" where
  "toLowerCase s = map lower_char s"

text \<open>The character class of the regular expression of lines 52 and 227:
  \<^verbatim>\<open>. , / # ! $ % ^ & * ; : { } = - _\<close>, the grave accent (code \<open>0x60\<close>) and \<^verbatim>\<open>~ ( )\<close>.\<close>

definition punctuation :: "char list" where
  "punctuation =
     [CHR ''.'', CHR '','', CHR ''/'', CHR ''#'', CHR ''!'', CHR ''$'', CHR ''%'', CHR ''^'',
      CHR ''&'', CHR ''*'', CHR '';'', CHR '':'', CHR ''{'', CHR ''}'', CHR ''='', CHR ''-'',
      CHR ''_'', CHR 0x60, CHR ''~'', CHR ''('', CHR '')'']"

definition strip_punctuation :: "string \<Rightarrow> string" where
  "strip_punctuation s = filter (\<lambda>c. c \<notin> set punctuation) s"

text \<open>White space of \<^verbatim>\<open>trim\<close> and of the class \<^verbatim>\<open>\s\<close> below 256: tab, line feed, vertical
  tab, form feed, carriage return, space and no-break space.\<close>

definition is_space :: "char \<Rightarrow> bool" where
  "is_space c = ((of_char c :: nat) \<in> {9, 10, 11, 12, 13, 32, 160})"

definition trim :: "string \<Rightarrow> string" where
  "trim s = rev (dropWhile is_space (rev (dropWhile is_space s)))"

text \<open>The local function \<^verbatim>\<open>normalize\<close>, defined with the same text at lines 52 and 227.\<close>

definition normalize_str :: "string \<Rightarrow> string" where
  "normalize_str s = trim (strip_punctuation (toLowerCase s))"

text \<open>
  \<^verbatim>\<open>s.split(/\s+/)\<close>: the fields between the maximal runs of white space. The empty string
  gives one empty field; a string that starts or ends with white space gives an empty first
  or last field.
\<close>

function split_ws :: "string \<Rightarrow> string list" where
  "split_ws s =
     (if dropWhile (\<lambda>c. \<not> is_space c) s = [] then [s]
      else takeWhile (\<lambda>c. \<not> is_space c) s
             # split_ws (dropWhile is_space (dropWhile (\<lambda>c. \<not> is_space c) s)))"
  by pat_completeness auto
termination
proof (relation "measure length")
  show "wf (measure length)" by simp
next
  fix s :: string
  assume ne: "dropWhile (\<lambda>c. \<not> is_space c) s \<noteq> []"
  then obtain c r where cr: "dropWhile (\<lambda>c. \<not> is_space c) s = c # r"
    by (cases "dropWhile (\<lambda>c. \<not> is_space c) s") auto
  from hd_dropWhile [OF ne] cr have "is_space c" by simp
  then have "length (dropWhile is_space (c # r)) \<le> length r"
    by (simp add: length_dropWhile_le)
  moreover have "length (c # r) \<le> length s"
    using length_dropWhile_le [of "\<lambda>c. \<not> is_space c" s] cr by simp
  ultimately show "(dropWhile is_space (dropWhile (\<lambda>c. \<not> is_space c) s), s) \<in> measure length"
    using cr by simp
qed

declare split_ws.simps [simp del]

text \<open>\<^verbatim>\<open>s.includes(t)\<close>: the string \<open>t\<close> occurs in \<open>s\<close> at some position.\<close>

fun str_includes :: "'a list \<Rightarrow> 'a list \<Rightarrow> bool" where
  "str_includes [] t = (t = [])"
| "str_includes (c # cs) t = (prefix t (c # cs) \<or> str_includes cs t)"

subsection \<open>Feedback: \<^verbatim>\<open>getPronunciationFeedback\<close> (lines 49-86)\<close>

text \<open>
  The messages, in the order of the source:
  \<^item> \<open>NothingHeard\<close>: line 50, "Nothing heard. Please try again.";
  \<^item> \<open>PerfectPronunciation\<close>: line 56, "Perfect pronunciation!";
  \<^item> \<open>WordNotClear w\<close>: line 64, "'w' was not clear.";
  \<^item> \<open>LengthMismatch\<close>: line 69, "Sentence length doesn't match.";
  \<^item> \<open>SlightlyOff t\<close>: line 78, "Pronunciation of 't' was slightly off.";
  \<^item> \<open>SaidInstead s t\<close>: line 80, "You said 's' instead of 't'";
  \<^item> \<open>PronounceClearly\<close>: line 85, "Try to pronounce more clearly.".
\<close>

datatype feedback =
    NothingHeard
  | PerfectPronunciation
  | WordNotClear string
  | LengthMismatch
  | SlightlyOff string
  | SaidInstead string string
  | PronounceClearly

text \<open>The loop of lines 73-83: the first index, below both lengths, at which the two word
  sequences differ, with the target word and the spoken word found there.\<close>

fun first_mismatch :: "string list \<Rightarrow> string list \<Rightarrow> (string \<times> string) option" where
  "first_mismatch (t # ts) (s # ss) = (if t \<noteq> s then Some (t, s) else first_mismatch ts ss)"
| "first_mismatch [] ss = None"
| "first_mismatch ts [] = None"

definition getPronunciationFeedback :: "string \<Rightarrow> string option \<Rightarrow> feedback" where
  "getPronunciationFeedback targetText spokenText =
     (if \<not> truthy spokenText then NothingHeard
      else
        let target = normalize_str targetText;
            spoken = normalize_str (or_empty spokenText)
        in
          if target = spoken then PerfectPronunciation
          else
            let targetWords = split_ws target;
                spokenWords = split_ws spoken;
                missing = List.find (\<lambda>w. w \<notin> set spokenWords) targetWords
            in
              if truthy missing then WordNotClear (or_empty missing)
              else if 2 < \<bar>int (length targetWords) - int (length spokenWords)\<bar>
                then LengthMismatch
              else
                (case first_mismatch targetWords spokenWords of
                   Some (t, s) \<Rightarrow>
                     if levenshtein t s \<le> 2 then SlightlyOff t else SaidInstead s t
                 | None \<Rightarrow> PronounceClearly))"

subsection \<open>Questions and the state of the lesson runner\<close>

datatype QuestionType =
  TranslateToEnglish | TranslateToBengali | FillBlank | Pronunciation | WordBuilder

record question =
  qid :: string
  qtype :: QuestionType
  questionText :: string
  options :: "string list"
  correctAnswer :: string
  explanation :: string

datatype Sensitivity = Easy | Medium | Hard

datatype status = Idle | Correct | Incorrect

text \<open>The state variables of the component that \<^verbatim>\<open>handleCheck\<close> reads or writes (lines
  93-106), and the hearts of the user state, which \<^verbatim>\<open>reduceHearts\<close> updates.\<close>

record runner =
  selectedOption :: "string option"
  builtWordIndices :: "nat list"
  spokenText :: "string option"
  status :: status
  score :: nat
  sensitivity :: Sensitivity
  feedback :: "feedback option"
  hearts :: nat

subsection \<open>Checking an answer: \<^verbatim>\<open>handleCheck\<close> (lines 217-273)\<close>

text \<open>The local variables of the pronunciation branch: \<^verbatim>\<open>threshold\<close> (lines 234-236),
  \<^verbatim>\<open>simpleMatch\<close> (line 239) and \<^verbatim>\<open>isCorrect\<close> (line 241).\<close>

definition threshold_of :: "Sensitivity \<Rightarrow> real" where
  "threshold_of s = (if s = Hard then 95 else if s = Easy then 50 else 80)"

definition simpleMatch :: "Sensitivity \<Rightarrow> string \<Rightarrow> string \<Rightarrow> bool" where
  "simpleMatch s target input =
     (input = target \<or> (s = Easy \<and> (str_includes input target \<or> str_includes target input)))"

definition pronunciationCorrect :: "Sensitivity \<Rightarrow> string \<Rightarrow> string \<Rightarrow> bool" where
  "pronunciationCorrect s target input =
     (simpleMatch s target input \<or> threshold_of s \<le> calculateSimilarity target input)"

text \<open>The word formed from the tiles (line 248): \<^verbatim>\<open>join\<close> turns the \<^verbatim>\<open>undefined\<close> of an index
  outside \<^verbatim>\<open>options\<close> into the empty string.\<close>

definition formedWord :: "string list \<Rightarrow> nat list \<Rightarrow> string" where
  "formedWord opts indices =
     concat (map (\<lambda>i. if i < length opts then opts ! i else []) indices)"

text \<open>\<^verbatim>\<open>reduceHearts\<close> (\<^verbatim>\<open>src/App.tsx\<close>, lines 62-67).\<close>

definition reduceHearts :: "runner \<Rightarrow> runner" where
  "reduceHearts st = st\<lparr>hearts := nat (max 0 (int (hearts st) - 1))\<rparr>"

text \<open>The common end of the handler (lines 259-272): the status, and ten points or a heart
  less.\<close>

definition settle :: "bool \<Rightarrow> runner \<Rightarrow> runner" where
  "settle isCorrect st =
     (let st1 = st\<lparr>status := (if isCorrect then Correct else Incorrect)\<rparr> in
      if isCorrect then st1\<lparr>score := score st1 + 10\<rparr> else reduceHearts st1)"

text \<open>
  The handler, for the current question \<^verbatim>\<open>lesson.questions[currentIndex]\<close> of a loaded
  lesson. Where the source returns early (lines 224 and 254) the state is unchanged.
\<close>

definition handleCheck :: "question \<Rightarrow> runner \<Rightarrow> runner" where
  "handleCheck currentQ st =
     (if qtype currentQ = Pronunciation then
        if \<not> truthy (spokenText st) \<and> \<not> truthy (selectedOption st) then st
        else
          let target = normalize_str (correctAnswer currentQ);
              input = normalize_str (or_empty (spokenText st));
              isCorrect = pronunciationCorrect (sensitivity st) target input;
              fb = getPronunciationFeedback (correctAnswer currentQ) (spokenText st)
          in settle isCorrect (st\<lparr>feedback := Some fb\<rparr>)
      else if qtype currentQ = WordBuilder then
        let word = formedWord (options currentQ) (builtWordIndices st);
            isCorrect = (word = correctAnswer currentQ)
        in settle isCorrect (st\<lparr>feedback := None, selectedOption := Some word\<rparr>)
      else
        if \<not> truthy (selectedOption st) then st
        else
          let isCorrect = (or_empty (selectedOption st) = correctAnswer currentQ)
          in settle isCorrect (st\<lparr>feedback := None\<rparr>))"

text \<open>The text shown under the verdict (lines 711-716): the generated feedback of a
  pronunciation question, the explanation of any other question.\<close>

datatype shown = Generated "feedback option" | Explanation string

definition shownFeedback :: "question \<Rightarrow> runner \<Rightarrow> shown" where
  "shownFeedback currentQ st =
     (if qtype currentQ = Pronunciation then Generated (feedback st)
      else Explanation (explanation currentQ))"

text \<open>The handler returns early, without a verdict (lines 224 and 254).\<close>

definition waits :: "question \<Rightarrow> runner \<Rightarrow> bool" where
  "waits currentQ st =
     (if qtype currentQ = Pronunciation
        then \<not> truthy (spokenText st) \<and> \<not> truthy (selectedOption st)
      else if qtype currentQ = WordBuilder then False
      else \<not> truthy (selectedOption st))"

subsection \<open>States in which the handler runs\<close>

text \<open>A question with the given type, options and correct answer.\<close>

definition mk_question :: "QuestionType \<Rightarrow> string list \<Rightarrow> string \<Rightarrow> question" where
  "mk_question t opts answer =
     \<lparr>qid = ''q1'', qtype = t, questionText = ''prompt'', options = opts,
      correctAnswer = answer, explanation = ''explanation''\<rparr>"

text \<open>The initial values of the state variables (lines 93-106), with the hearts passed by
  the parent component.\<close>

definition initial_runner :: "nat \<Rightarrow> runner" where
  "initial_runner h =
     \<lparr>selectedOption = None, builtWordIndices = [], spokenText = None, status = Idle,
      score = 0, sensitivity = Medium, feedback = None, hearts = h\<rparr>"

text \<open>The result handler of the speech recognition (lines 182-186) stores the transcript in
  \<^verbatim>\<open>spokenText\<close> and in \<^verbatim>\<open>selectedOption\<close>.\<close>

definition onresult :: "string \<Rightarrow> runner \<Rightarrow> runner" where
  "onresult transcript st = st\<lparr>spokenText := Some transcript, selectedOption := Some transcript\<rparr>"

section \<open>The matrix computes the edit distance\<close>

subsection \<open>The loops tabulate the recurrence\<close>

lemma lev_dist_0_right: "lev_dist a b i 0 = i"
  by (cases i) simp_all

lemma assign_length: "assign arr (length arr) v = arr @ [v]"
  by (simp add: assign_def)

lemma init_rows_eq: "init_rows n = map (\<lambda>i. [i]) [0..<Suc n]"
proof -
  have "fold (\<lambda>i matrix. assign matrix i [i]) [0..<k] [] = map (\<lambda>i. [i]) [0..<k]" for k
    by (induction k) (simp_all add: assign_def)
  then show ?thesis by (simp only: init_rows_def)
qed

lemma init_cols_eq:
  assumes "matrix \<noteq> []" "matrix ! 0 = [0]"
  shows "init_cols k matrix = matrix[0 := [0..<Suc k]]"
proof -
  have "fold (\<lambda>j matrix. matrix[0 := assign (matrix ! 0) j j]) [0..<Suc k] matrix
          = matrix[0 := [0..<Suc k]]" for k
  proof (induction k)
    case 0
    show ?case using assms list_update_id [of matrix 0] by (simp add: assign_def)
  next
    case (Suc k)
    have "[0..<Suc (Suc k)] = [0..<Suc k] @ [Suc k]" by simp
    then show ?case using assms Suc by (simp add: assign_def del: upt_Suc)
  qed
  then show ?thesis by (simp only: init_cols_def)
qed

lemma row_length: "length (row a b i j) = Suc j"
  by (simp add: row_def)

lemma row_nth: "k \<le> j \<Longrightarrow> row a b i j ! k = lev_dist a b i k"
  unfolding row_def by (metis add_0 le_imp_less_Suc nth_map_upt diff_zero)

lemma row_Suc: "row a b i (Suc j) = row a b i j @ [lev_dist a b i (Suc j)]"
  by (simp add: row_def)

lemma fill_row_prefix:
  assumes "Suc i < length matrix"
    and "matrix ! i = row a b i (length a)"
    and "matrix ! Suc i = [Suc i]"
    and "j \<le> length a"
  shows "fold (\<lambda>j matrix. matrix[Suc i := assign (matrix ! Suc i) j (cell a b matrix (Suc i) j)])
           [1..<Suc j] matrix = matrix[Suc i := row a b (Suc i) j]"
  using assms(4)
proof (induction j)
  case 0
  show ?case using assms(1,3) list_update_id [of matrix "Suc i"] by (simp add: row_def)
next
  case (Suc j)
  let ?m = "matrix[Suc i := row a b (Suc i) j]"
  have up: "[Suc 0..<Suc (Suc j)] = [Suc 0..<Suc j] @ [Suc j]" by simp
  have prev: "?m ! i = row a b i (length a)" using assms(2) by simp
  have cur: "?m ! Suc i = row a b (Suc i) j" using assms(1) by simp
  have c: "cell a b ?m (Suc i) (Suc j) = lev_dist a b (Suc i) (Suc j)"
    using Suc.prems by (simp add: cell_def prev cur row_nth)
  have "assign (?m ! Suc i) (Suc j) (cell a b ?m (Suc i) (Suc j)) = row a b (Suc i) (Suc j)"
    by (simp add: cur c row_Suc assign_def row_length)
  with Suc show ?case
    by (simp add: up del: upt_Suc)
qed

lemma fill_row_eq:
  assumes "Suc i < length matrix"
    and "matrix ! i = row a b i (length a)"
    and "matrix ! Suc i = [Suc i]"
  shows "fill_row a b (Suc i) matrix = matrix[Suc i := row a b (Suc i) (length a)]"
  unfolding fill_row_def using fill_row_prefix [OF assms order_refl] .

lemma upto_row_step:
  assumes "i < length b"
  shows "fill_row a b (Suc i) (upto_row a b i) = upto_row a b (Suc i)"
proof -
  have len: "Suc i < length (upto_row a b i)" using assms by (simp add: upto_row_def)
  have r1: "upto_row a b i ! i = row a b i (length a)"
    using assms unfolding upto_row_def by (simp add: nth_map_upt del: upt_Suc)
  have r2: "upto_row a b i ! Suc i = [Suc i]"
    using assms unfolding upto_row_def by (simp add: nth_map_upt del: upt_Suc)
  have "(upto_row a b i)[Suc i := row a b (Suc i) (length a)] = upto_row a b (Suc i)"
    using assms unfolding upto_row_def
    by (intro nth_equalityI) (auto simp: nth_list_update nth_map_upt simp del: upt_Suc)
  with fill_row_eq [OF len r1 r2] show ?thesis by simp
qed

lemma fill_prefix:
  "i \<le> length b \<Longrightarrow> fold (fill_row a b) [1..<Suc i] (upto_row a b 0) = upto_row a b i"
proof (induction i)
  case 0
  show ?case by simp
next
  case (Suc i)
  have "[Suc 0..<Suc (Suc i)] = [Suc 0..<Suc i] @ [Suc i]" by simp
  with Suc show ?case by (simp add: upto_row_step del: upt_Suc)
qed

lemma init_eq: "init_cols (length a) (init_rows (length b)) = upto_row a b 0"
proof -
  have "init_cols (length a) (init_rows (length b))
          = (map (\<lambda>i. [i]) [0..<Suc (length b)])[0 := [0..<Suc (length a)]]"
    by (subst init_cols_eq) (simp_all add: init_rows_eq upt_rec del: upt_Suc)
  also have "\<dots> = upto_row a b 0"
    unfolding upto_row_def row_def
    by (intro nth_equalityI) (auto simp: nth_list_update nth_map_upt map_idI simp del: upt_Suc)
  finally show ?thesis .
qed

lemma levenshtein_dist: "levenshtein a b = lev_dist a b (length b) (length a)"
proof -
  have "fill a b (init_cols (length a) (init_rows (length b))) = upto_row a b (length b)"
    by (simp only: fill_def init_eq fill_prefix [OF order_refl])
  then show ?thesis
    unfolding levenshtein_def upto_row_def by (simp add: nth_map_upt row_nth del: upt_Suc)
qed


lemma lev_dist_ed:
  "i \<le> length b \<Longrightarrow> j \<le> length a \<Longrightarrow>
     lev_dist a b i j = ed (rev (take i b)) (rev (take j a))"
proof (induction a b i j rule: lev_dist.induct)
  case (1 a b j)
  then show ?case by simp
next
  case (2 a b i)
  then show ?case by (simp add: take_Suc_conv_app_nth)
next
  case (3 a b i j)
  then show ?case by (simp add: take_Suc_conv_app_nth)
qed

lemma levenshtein_ed: "levenshtein a b = ed (rev b) (rev a)"
  by (simp add: levenshtein_dist lev_dist_ed)

lemma ed_Nil_right: "ed xs [] = length xs"
  by (cases xs) simp_all

lemma edits_ed: "edits xs ys (ed xs ys)"
proof (induction xs ys rule: ed.induct)
  case (1 ys)
  show ?case by (induction ys) (auto intro: edits.intros)
next
  case (2 x xs)
  have "edits zs [] (length zs)" for zs :: "'a list"
    by (induction zs) (auto intro: edits.intros)
  from this [of "x # xs"] show ?case by simp
next
  case (3 x xs y ys)
  show ?case
  proof (cases "x = y")
    case True
    with 3 show ?thesis by (auto intro: edits.Keep)
  next
    case False
    let ?s = "ed xs ys" and ?i = "ed (x # xs) ys" and ?d = "ed xs (y # ys)"
    consider "?s \<le> ?i" "?s \<le> ?d" | "?i \<le> ?s" "?i \<le> ?d" | "?d \<le> ?s" "?d \<le> ?i"
      by linarith
    then show ?thesis
    proof cases
      case 1
      then have "ed (x # xs) (y # ys) = Suc ?s" using False by (simp add: min_def)
      with 3(2) [OF False] show ?thesis by (auto intro: edits.Substitute)
    next
      case 2
      then have "ed (x # xs) (y # ys) = Suc ?i" using False by (simp add: min_def)
      with 3(3) [OF False] show ?thesis by (auto intro: edits.Insert)
    next
      case 3
      then have "ed (x # xs) (y # ys) = Suc ?d" using False by (simp add: min_def)
      with "3.IH"(4) [OF False] show ?thesis by (auto intro: edits.Delete)
    qed
  qed
qed

lemma edits_length:
  "edits xs ys n \<Longrightarrow> length ys \<le> length xs + n \<and> length xs \<le> length ys + n"
  by (induction rule: edits.induct) auto

lemma edits_drop_left: "edits (x # xs) ys n \<Longrightarrow> \<exists>m\<le>Suc n. edits xs ys m"
proof (induction "x # xs" ys n rule: edits.induct)
  case (Keep ys n)
  then have "edits xs (x # ys) (Suc n)" by (simp add: edits.Insert)
  then show ?case by (intro exI [of _ "Suc n"]) simp
next
  case (Substitute ys n y)
  then have "edits xs (y # ys) (Suc n)" by (simp add: edits.Insert)
  then show ?case by (intro exI [of _ "Suc n"]) simp
next
  case (Delete ys n)
  then show ?case by (intro exI [of _ n]) simp
next
  case (Insert ys n y)
  then obtain m where m: "m \<le> Suc n" "edits xs ys m" by blast
  then have "edits xs (y # ys) (Suc m)" by (simp add: edits.Insert)
  with m(1) show ?case by (intro exI [of _ "Suc m"]) simp
qed

lemma edits_sym: "edits xs ys n \<Longrightarrow> edits ys xs n"
  by (induction rule: edits.induct) (auto intro: edits.intros)

lemma edits_drop_right:
  assumes "edits xs (y # ys) n"
  shows "\<exists>m\<le>Suc n. edits xs ys m"
proof -
  from assms have "edits (y # ys) xs n" by (rule edits_sym)
  from edits_drop_left [OF this] obtain m where "m \<le> Suc n" "edits ys xs m" by blast
  then show ?thesis using edits_sym by (intro exI [of _ m]) simp
qed

inductive_cases edits_ConsE: "edits (x # xs) (y # ys) n"

lemma edits_cancel: "edits (x # xs) (x # ys) n \<Longrightarrow> \<exists>m\<le>n. edits xs ys m"
proof (erule edits_ConsE)
  assume "edits xs ys n"
  then show ?thesis by (intro exI [of _ n]) simp
next
  fix k assume "n = Suc k" "edits xs ys k"
  then show ?thesis by (intro exI [of _ k]) simp
next
  fix k assume k: "n = Suc k" "edits xs (x # ys) k"
  from edits_drop_right [OF k(2)] obtain m where "m \<le> Suc k" "edits xs ys m" by blast
  with k(1) show ?thesis by (intro exI [of _ m]) simp
next
  fix k assume k: "n = Suc k" "edits (x # xs) ys k"
  from edits_drop_left [OF k(2)] obtain m where "m \<le> Suc k" "edits xs ys m" by blast
  with k(1) show ?thesis by (intro exI [of _ m]) simp
qed

lemma ed_least: "edits xs ys n \<Longrightarrow> ed xs ys \<le> n"
proof (induction xs ys arbitrary: n rule: ed.induct)
  case (1 ys)
  from edits_length [OF "1.prems"] show ?case by simp
next
  case (2 x xs)
  from edits_length [OF "2.prems"] show ?case by simp
next
  case (3 x xs y ys)
  show ?case
  proof (cases "x = y")
    case True
    with "3.prems" have "edits (x # xs) (x # ys) n" by simp
    from edits_cancel [OF this] obtain m where m: "m \<le> n" "edits xs ys m" by blast
    from "3.IH"(1) [OF True m(2)] m(1) True show ?thesis by simp
  next
    case False
    from "3.prems" show ?thesis
    proof (rule edits_ConsE)
      assume "y = x"
      with False show ?thesis by simp
    next
      fix k assume k: "n = Suc k" "edits xs ys k"
      from "3.IH"(2) [OF False k(2)] k(1) False show ?thesis by simp
    next
      fix k assume k: "n = Suc k" "edits xs (y # ys) k"
      from "3.IH"(4) [OF False k(2)] k(1) False show ?thesis by simp
    next
      fix k assume k: "n = Suc k" "edits (x # xs) ys k"
      from "3.IH"(3) [OF False k(2)] k(1) False show ?thesis by simp
    qed
  qed
qed

lemma edits_snoc_keep: "edits xs ys n \<Longrightarrow> edits (xs @ [x]) (ys @ [x]) n"
  by (induction rule: edits.induct) (auto intro: edits.intros)

lemma edits_snoc_substitute: "edits xs ys n \<Longrightarrow> edits (xs @ [x]) (ys @ [y]) (Suc n)"
  by (induction rule: edits.induct) (auto intro: edits.intros)

lemma edits_snoc_delete: "edits xs ys n \<Longrightarrow> edits (xs @ [x]) ys (Suc n)"
  by (induction rule: edits.induct) (auto intro: edits.intros)

lemma edits_snoc_insert: "edits xs ys n \<Longrightarrow> edits xs (ys @ [y]) (Suc n)"
  by (induction rule: edits.induct) (auto intro: edits.intros)

lemma edits_rev: "edits xs ys n \<Longrightarrow> edits (rev xs) (rev ys) n"
  by (induction rule: edits.induct)
    (auto intro: edits.Done edits_snoc_keep edits_snoc_substitute edits_snoc_delete
       edits_snoc_insert)

lemma edits_rev_iff: "edits (rev xs) (rev ys) n \<longleftrightarrow> edits xs ys n"
  using edits_rev [of xs ys n] edits_rev [of "rev xs" "rev ys" n] by auto

lemma levenshtein_edits: "edits a b (levenshtein a b)"
  using edits_ed [of "rev b" "rev a"] by (simp add: levenshtein_ed edits_rev_iff edits_sym)

lemma levenshtein_least: "edits a b n \<Longrightarrow> levenshtein a b \<le> n"
  using ed_least [of "rev b" "rev a" n]
  by (simp add: levenshtein_ed edits_rev_iff edits_sym)

lemma edits_same: "edits xs xs 0"
  by (induction xs) (auto intro: edits.intros)

lemma edits_max: "edits xs ys (max (length xs) (length ys))"
proof (induction xs ys rule: list_induct2')
  case 1
  show ?case by (simp add: edits.Done)
next
  case (2 x xs)
  have "edits zs [] (length zs)" for zs :: "'a list"
    by (induction zs) (auto intro: edits.intros)
  from this [of "x # xs"] show ?case by simp
next
  case (3 y ys)
  have "edits [] zs (length zs)" for zs :: "'a list"
    by (induction zs) (auto intro: edits.intros)
  from this [of "y # ys"] show ?case by simp
next
  case (4 x xs y ys)
  then show ?case by (auto intro: edits.Substitute)
qed

subsection \<open>The result of the loops is the least cost of an edit sequence\<close>

lemma levenshtein_edit_distance: "levenshtein a b = edit_distance a b"
  unfolding edit_distance_def
proof (rule Least_equality [symmetric])
  show "edits a b (levenshtein a b)" by (rule levenshtein_edits)
  show "levenshtein a b \<le> n" if "edits a b n" for n
    using that by (rule levenshtein_least)
qed

lemma levenshtein_sym: "levenshtein a b = levenshtein b a"
proof (rule antisym)
  show "levenshtein a b \<le> levenshtein b a"
    by (rule levenshtein_least [OF edits_sym [OF levenshtein_edits]])
  show "levenshtein b a \<le> levenshtein a b"
    by (rule levenshtein_least [OF edits_sym [OF levenshtein_edits]])
qed

lemma levenshtein_same: "levenshtein s s = 0"
  using levenshtein_least [OF edits_same, of s] by simp

lemma levenshtein_le_max: "levenshtein a b \<le> max (length a) (length b)"
  by (rule levenshtein_least [OF edits_max])

lemma levenshtein_Nil_left: "levenshtein [] b = length b"
  by (simp add: levenshtein_ed ed_Nil_right)

lemma levenshtein_Nil_right: "levenshtein a [] = length a"
  by (simp add: levenshtein_ed)

lemma calculateSimilarity_eq:
  "calculateSimilarity a b =
     (if a = [] \<and> b = [] then 100
      else (real (max (length a) (length b)) - real (levenshtein a b))
             / real (max (length a) (length b)) * 100)"
  by (auto simp: calculateSimilarity_def Let_def)

lemma calculateSimilarity_range:
  "0 \<le> calculateSimilarity a b \<and> calculateSimilarity a b \<le> 100"
proof (cases "a = [] \<and> b = []")
  case True
  then show ?thesis by (simp add: calculateSimilarity_def)
next
  case False
  let ?L = "max (length a) (length b)"
  have L: "0 < ?L" using False by (cases a; cases b; simp)
  have d: "real (levenshtein a b) \<le> real ?L"
    using levenshtein_le_max [of a b] by (simp only: of_nat_le_iff)
  have eq: "calculateSimilarity a b = (real ?L - real (levenshtein a b)) / real ?L * 100"
    using False by (simp add: calculateSimilarity_eq)
  define q where "q = (real ?L - real (levenshtein a b)) / real ?L"
  have "0 \<le> q" unfolding q_def using d L by simp
  moreover have "q \<le> 1" unfolding q_def using d L by (simp add: divide_le_eq)
  ultimately have "0 \<le> q * 100 \<and> q * 100 \<le> 100" by simp
  then show ?thesis unfolding eq q_def .
qed

lemma calculateSimilarity_kitten: "calculateSimilarity ''kitten'' ''sitting'' = 400 / 7"
  by code_simp

lemma levenshtein_kitten: "levenshtein ''kitten'' ''sitting'' = 3"
  by code_simp


lemma calculateSimilarity_Nil_left:
  "calculateSimilarity [] ys = (if ys = [] then 100 else 0)"
  by (simp add: calculateSimilarity_eq levenshtein_Nil_left)

lemma calculateSimilarity_Nil_right:
  "calculateSimilarity ys [] = (if ys = [] then 100 else 0)"
  by (simp add: calculateSimilarity_eq levenshtein_Nil_right)

section \<open>Properties of the similarity score\<close>

text \<open>
  C1. For all strings \<open>a\<close> and \<open>b\<close>, \<open>calculateSimilarity a b\<close> is \<open>100\<close> when both are empty
  and otherwise \<open>((L - d) / L) * 100\<close>, where \<open>L\<close> is the larger of the two lengths and \<open>d\<close> is
  the edit distance: the number \<open>levenshtein a b\<close> that the matrix computes is the cost of a
  sequence of unit-cost insertions, deletions and substitutions turning \<open>a\<close> into \<open>b\<close>, and no
  such sequence costs less. The result lies between \<open>0\<close> and \<open>100\<close>. For "kitten" and "sitting"
  the distance is \<open>3\<close> and the similarity \<open>400 / 7\<close>, about \<open>57.14\<close>.
\<close>

theorem calculateSimilarity_formula:
  "calculateSimilarity a b =
     (if a = [] \<and> b = [] then 100
      else (real (max (length a) (length b)) - real (edit_distance a b))
             / real (max (length a) (length b)) * 100)
   \<and> levenshtein a b = edit_distance a b
   \<and> edits a b (edit_distance a b)
   \<and> (\<forall>n. edits a b n \<longrightarrow> edit_distance a b \<le> n)
   \<and> 0 \<le> calculateSimilarity a b \<and> calculateSimilarity a b \<le> 100
   \<and> levenshtein ''kitten'' ''sitting'' = 3
   \<and> calculateSimilarity ''kitten'' ''sitting'' = 400 / 7
   \<and> \<bar>calculateSimilarity ''kitten'' ''sitting'' - 57.14\<bar> < 0.01"
proof (intro conjI)
  show "calculateSimilarity a b =
     (if a = [] \<and> b = [] then 100
      else (real (max (length a) (length b)) - real (edit_distance a b))
             / real (max (length a) (length b)) * 100)"
    by (simp only: calculateSimilarity_eq [of a b] levenshtein_edit_distance)
  show "levenshtein a b = edit_distance a b" by (rule levenshtein_edit_distance)
  show "edits a b (edit_distance a b)"
    using levenshtein_edits [of a b] by (simp only: levenshtein_edit_distance)
  show "\<forall>n. edits a b n \<longrightarrow> edit_distance a b \<le> n"
    using levenshtein_least [of a b] by (simp only: levenshtein_edit_distance) blast
  show "0 \<le> calculateSimilarity a b" "calculateSimilarity a b \<le> 100"
    using calculateSimilarity_range [of a b] by blast+
  show "levenshtein ''kitten'' ''sitting'' = 3" by (rule levenshtein_kitten)
  show "calculateSimilarity ''kitten'' ''sitting'' = 400 / 7"
    by (rule calculateSimilarity_kitten)
  show "\<bar>calculateSimilarity ''kitten'' ''sitting'' - 57.14\<bar> < 0.01"
    by (simp add: calculateSimilarity_kitten)
qed

theorem calculateSimilarity_formula_witness:
  "edits ''ab'' ''b'' 1 \<and> edit_distance ''ab'' ''b'' \<le> 1
   \<and> calculateSimilarity ''ab'' ''b'' = 50"
proof -
  have e: "edits ''ab'' ''b'' 1"
    by (simp add: edits.Delete edits.Keep edits.Done)
  have s: "calculateSimilarity ''ab'' ''b'' = 50" by code_simp
  from calculateSimilarity_formula [of "''ab''" "''b''"]
  have "\<forall>n. edits ''ab'' ''b'' n \<longrightarrow> edit_distance ''ab'' ''b'' \<le> n" by blast
  with e have "edit_distance ''ab'' ''b'' \<le> 1" by blast
  with e s show ?thesis by blast
qed

text \<open>
  C8. The similarity of a string with itself is \<open>100\<close>, also for the empty string; the
  similarity is symmetric; against the empty string the distance is the length of the other
  string, so that the similarity of a non-empty string with the empty string is \<open>0\<close>, as it
  is for "abc".
\<close>

theorem similarity_laws:
  "calculateSimilarity s s = 100
   \<and> calculateSimilarity a b = calculateSimilarity b a
   \<and> calculateSimilarity '''' '''' = 100
   \<and> calculateSimilarity '''' ''abc'' = 0
   \<and> calculateSimilarity ''abc'' '''' = 0
   \<and> levenshtein [] b = length b
   \<and> levenshtein a [] = length a
   \<and> calculateSimilarity [] (x # b) = 0
   \<and> calculateSimilarity (x # a) [] = 0"
proof -
  have same: "calculateSimilarity s s = 100"
    by (simp add: calculateSimilarity_eq levenshtein_same)
  have swap: "calculateSimilarity a b = calculateSimilarity b a"
    by (simp add: calculateSimilarity_eq levenshtein_sym [of a b] max.commute conj_commute)
  show ?thesis
    by (simp add: same swap calculateSimilarity_Nil_left calculateSimilarity_Nil_right
        levenshtein_Nil_left levenshtein_Nil_right)
qed

theorem similarity_laws_witness:
  "calculateSimilarity ''abc'' ''abc'' = 100
   \<and> calculateSimilarity ''ab'' ''ba'' = calculateSimilarity ''ba'' ''ab''
   \<and> levenshtein '''' ''ba'' = 2 \<and> levenshtein ''ab'' '''' = 2
   \<and> calculateSimilarity '''' ''cba'' = 0"
proof -
  note w = similarity_laws [where s = "''abc''" and a = "''ab''" and b = "''ba''"
      and x = "CHR ''c''"]
  from w have 1: "calculateSimilarity ''abc'' ''abc'' = 100" by (elim conjE)
  from w have 2: "calculateSimilarity ''ab'' ''ba'' = calculateSimilarity ''ba'' ''ab''"
    by (elim conjE)
  from w have 3: "levenshtein '''' ''ba'' = length ''ba''" by (elim conjE)
  from w have 4: "levenshtein ''ab'' '''' = length ''ab''" by (elim conjE)
  from w have 5: "calculateSimilarity '''' ''cba'' = 0" by (elim conjE)
  from 3 have 3: "levenshtein '''' ''ba'' = 2" by simp
  from 4 have 4: "levenshtein ''ab'' '''' = 2" by simp
  from 1 2 3 4 5 show ?thesis by (intro conjI)
qed

section \<open>The handler, branch by branch\<close>

lemma str_includes_sublist: "str_includes s t \<longleftrightarrow> sublist t s"
  by (induction s) (simp_all add: sublist_Cons_right)

lemma truthy_Some: "truthy (Some s) \<longleftrightarrow> s \<noteq> []"
  by (simp add: truthy_def)

lemma truthy_None: "\<not> truthy None"
  by (simp add: truthy_def)

lemma or_empty_Some: "or_empty (Some s) = s"
  by (simp add: or_empty_def)

lemma or_empty_falsy: "\<not> truthy s \<Longrightarrow> or_empty s = []"
  by (cases s) (simp_all add: or_empty_def truthy_def)

lemma status_settle: "status (settle c st) = (if c then Correct else Incorrect)"
  by (simp add: settle_def reduceHearts_def Let_def)

lemma feedback_settle: "feedback (settle c st) = feedback st"
  by (simp add: settle_def reduceHearts_def Let_def)

lemma selectedOption_settle: "selectedOption (settle c st) = selectedOption st"
  by (simp add: settle_def reduceHearts_def Let_def)

lemma score_settle: "score (settle c st) = (if c then score st + 10 else score st)"
  by (simp add: settle_def reduceHearts_def Let_def)

lemma hearts_settle: "hearts (settle c st) = (if c then hearts st else hearts st - 1)"
proof -
  have "nat (max 0 (int (hearts st) - 1)) = hearts st - 1" by arith
  then show ?thesis by (simp add: settle_def reduceHearts_def Let_def)
qed

lemma handleCheck_pronunciation:
  assumes "qtype q = Pronunciation" "truthy (spokenText st) \<or> truthy (selectedOption st)"
  shows "handleCheck q st =
           settle (pronunciationCorrect (sensitivity st) (normalize_str (correctAnswer q))
                     (normalize_str (or_empty (spokenText st))))
             (st\<lparr>feedback := Some (getPronunciationFeedback (correctAnswer q) (spokenText st))\<rparr>)"
  using assms by (auto simp: handleCheck_def Let_def)

lemma handleCheck_wordBuilder:
  assumes "qtype q = WordBuilder"
  shows "handleCheck q st =
           settle (formedWord (options q) (builtWordIndices st) = correctAnswer q)
             (st\<lparr>feedback := None,
                 selectedOption := Some (formedWord (options q) (builtWordIndices st))\<rparr>)"
  using assms by (simp add: handleCheck_def Let_def)

lemma handleCheck_choice:
  assumes "qtype q \<noteq> Pronunciation" "qtype q \<noteq> WordBuilder" "truthy (selectedOption st)"
  shows "handleCheck q st =
           settle (or_empty (selectedOption st) = correctAnswer q) (st\<lparr>feedback := None\<rparr>)"
  using assms by (simp add: handleCheck_def Let_def)

lemma handleCheck_waits: "waits q st \<Longrightarrow> handleCheck q st = st"
  by (auto simp: handleCheck_def waits_def split: if_splits)

lemma threshold_of_values:
  "threshold_of Easy = 50" "threshold_of Medium = 80" "threshold_of Hard = 95"
  by (simp_all add: threshold_of_def)


lemma status_distinct: "Correct \<noteq> Incorrect" "Idle \<noteq> Correct" "Idle \<noteq> Incorrect"
  by simp_all

lemma onresult_fields:
  "spokenText (onresult t st) = Some t" "selectedOption (onresult t st) = Some t"
  "sensitivity (onresult t st) = sensitivity st"
  "builtWordIndices (onresult t st) = builtWordIndices st"
  by (simp_all add: onresult_def)

lemma mk_question_fields:
  "qtype (mk_question t opts answer) = t" "options (mk_question t opts answer) = opts"
  "correctAnswer (mk_question t opts answer) = answer"
  "explanation (mk_question t opts answer) = ''explanation''"
  by (simp_all add: mk_question_def)

lemma getPronunciationFeedback_falsy:
  "\<not> truthy sp \<Longrightarrow> getPronunciationFeedback target sp = NothingHeard"
  by (simp add: getPronunciationFeedback_def)

lemma normalize_str_Nil: "normalize_str [] = []"
  by (simp add: normalize_str_def trim_def strip_punctuation_def toLowerCase_def)

section \<open>Properties of the verdict\<close>

text \<open>
  C2. For a pronunciation question and a non-empty transcript, the pass threshold depends on
  the sensitivity only (Easy 50, Medium 80, Hard 95), and the answer is marked correct if and
  only if the similarity of the normalized strings reaches the threshold, or the normalized
  transcript equals the normalized target, or the sensitivity is Easy and one normalized
  string occurs in the other. The occurrence passes whatever the score is, and it is not
  consulted under Medium and Hard.
\<close>

theorem pronunciation_verdict:
  assumes "qtype q = Pronunciation" and "spokenText st = Some s" and "s \<noteq> []"
  shows "threshold_of Easy = 50 \<and> threshold_of Medium = 80 \<and> threshold_of Hard = 95
    \<and> (status (handleCheck q st) = Correct \<longleftrightarrow>
          threshold_of (sensitivity st)
            \<le> calculateSimilarity (normalize_str (correctAnswer q)) (normalize_str s)
          \<or> normalize_str s = normalize_str (correctAnswer q)
          \<or> (sensitivity st = Easy
              \<and> (sublist (normalize_str (correctAnswer q)) (normalize_str s)
                  \<or> sublist (normalize_str s) (normalize_str (correctAnswer q)))))
    \<and> (status (handleCheck q st) = Incorrect \<longleftrightarrow> status (handleCheck q st) \<noteq> Correct)"
proof -
  have t: "truthy (spokenText st) \<or> truthy (selectedOption st)"
    using assms by (simp add: truthy_Some)
  have "status (handleCheck q st) =
          (if pronunciationCorrect (sensitivity st) (normalize_str (correctAnswer q))
                (normalize_str s) then Correct else Incorrect)"
    using assms by (simp add: handleCheck_pronunciation [OF assms(1) t] status_settle
        or_empty_Some)
  then show ?thesis
    by (auto simp: threshold_of_values pronunciationCorrect_def simpleMatch_def
        str_includes_sublist)
qed


theorem pronunciation_verdict_witness:
  "status (handleCheck (mk_question Pronunciation [''good morning''] ''good morning'')
      (onresult ''good morning everyone'' ((initial_runner 5)\<lparr>sensitivity := Easy\<rparr>))) = Correct
   \<and> calculateSimilarity (normalize_str ''good morning'')
        (normalize_str ''good morning everyone'') = 400 / 7
   \<and> status (handleCheck (mk_question Pronunciation [''good''] ''good'')
      (onresult ''good morning everyone'' ((initial_runner 5)\<lparr>sensitivity := Easy\<rparr>))) = Correct
   \<and> calculateSimilarity (normalize_str ''good'')
        (normalize_str ''good morning everyone'') = 400 / 21
   \<and> status (handleCheck (mk_question Pronunciation [''good''] ''good'')
      (onresult ''good morning everyone'' (initial_runner 5))) = Incorrect"
proof -
  let ?long = "''good morning everyone''"
  let ?q1 = "mk_question Pronunciation [''good morning''] ''good morning''"
  let ?q2 = "mk_question Pronunciation [''good''] ''good''"
  let ?easy = "onresult ?long ((initial_runner 5)\<lparr>sensitivity := Easy\<rparr>)"
  let ?medium = "onresult ?long (initial_runner 5)"
  have n0: "normalize_str ?long = ?long" by code_simp
  have n1: "normalize_str ''good morning'' = ''good morning''" by code_simp
  have n2: "normalize_str ''good'' = ''good''" by code_simp
  have i1: "sublist ''good morning'' ?long"
    unfolding str_includes_sublist [symmetric] by code_simp
  have i2: "sublist ''good'' ?long"
    unfolding str_includes_sublist [symmetric] by code_simp
  have s1: "calculateSimilarity ''good morning'' ?long = 400 / 7" by code_simp
  have s2: "calculateSimilarity ''good'' ?long = 400 / 21" by code_simp
  have e: "sensitivity ?easy = Easy" by (simp add: onresult_def)
  have m: "sensitivity ?medium = Medium" by (simp add: onresult_def initial_runner_def)
  have ne: "?long \<noteq> []" by simp
  have 1: "status (handleCheck ?q1 ?easy) = Correct"
    using pronunciation_verdict [of ?q1 ?easy ?long] ne i1
    by (simp add: mk_question_fields onresult_fields(1) e n0 n1)
  have 2: "status (handleCheck ?q2 ?easy) = Correct"
    using pronunciation_verdict [of ?q2 ?easy ?long] ne i2
    by (simp add: mk_question_fields onresult_fields(1) e n0 n2)
  have 3: "status (handleCheck ?q2 ?medium) = Incorrect"
    using pronunciation_verdict [of ?q2 ?medium ?long] ne
    by (simp add: mk_question_fields onresult_fields(1) m n0 n2 s2)
  from 1 2 3 s1 s2 show ?thesis by (simp only: n0 n1 n2)
qed


text \<open>
  C3, as amended. For a pronunciation question whose transcript is empty or absent, the
  feedback function returns the nothing-heard message. When no selection is stored either,
  as in every state the recognition leaves behind, the handler returns early and leaves the
  state as it is: no verdict, whatever the sensitivity. When a selection is stored, the
  handler stores the nothing-heard message, and under Medium and Hard, for a target that
  does not normalize to the empty string, the answer is marked incorrect with similarity 0.
\<close>

theorem empty_transcript_no_verdict:
  assumes "qtype q = Pronunciation" and "\<not> truthy (spokenText st)"
  shows "getPronunciationFeedback (correctAnswer q) (spokenText st) = NothingHeard
    \<and> (\<not> truthy (selectedOption st) \<longrightarrow> handleCheck q st = st)
    \<and> (truthy (selectedOption st) \<longrightarrow>
         feedback (handleCheck q st) = Some NothingHeard
         \<and> (sensitivity st \<noteq> Easy \<and> normalize_str (correctAnswer q) \<noteq> [] \<longrightarrow>
              status (handleCheck q st) = Incorrect
              \<and> calculateSimilarity (normalize_str (correctAnswer q))
                    (normalize_str (or_empty (spokenText st))) = 0))"
proof (intro conjI impI)
  show fb: "getPronunciationFeedback (correctAnswer q) (spokenText st) = NothingHeard"
    using assms(2) by (rule getPronunciationFeedback_falsy)
  show "handleCheck q st = st" if "\<not> truthy (selectedOption st)"
    using assms that by (simp add: handleCheck_def)
  have inp: "normalize_str (or_empty (spokenText st)) = []"
    using assms(2) by (simp add: or_empty_falsy normalize_str_Nil)
  show "feedback (handleCheck q st) = Some NothingHeard" if "truthy (selectedOption st)"
    using that by (simp add: handleCheck_pronunciation [OF assms(1)] feedback_settle fb)
  show "status (handleCheck q st) = Incorrect"
    if "truthy (selectedOption st)"
      and "sensitivity st \<noteq> Easy \<and> normalize_str (correctAnswer q) \<noteq> []"
    using that
    by (auto simp: handleCheck_pronunciation [OF assms(1)] status_settle inp
        pronunciationCorrect_def simpleMatch_def calculateSimilarity_Nil_right threshold_of_def)
  show "calculateSimilarity (normalize_str (correctAnswer q))
          (normalize_str (or_empty (spokenText st))) = 0"
    if "sensitivity st \<noteq> Easy \<and> normalize_str (correctAnswer q) \<noteq> []"
    using that by (simp add: inp calculateSimilarity_Nil_right)
qed

text \<open>
  C3 as stated fails: with no transcript, and with the empty transcript, the handler returns
  at line 224 and the status stays idle; no feedback is stored.
\<close>

theorem empty_transcript_counterexample:
  "status (handleCheck (mk_question Pronunciation [''good morning''] ''good morning'')
      (initial_runner 5)) = Idle
   \<and> feedback (handleCheck (mk_question Pronunciation [''good morning''] ''good morning'')
      (initial_runner 5)) = None
   \<and> status (handleCheck (mk_question Pronunciation [''good morning''] ''good morning'')
      (onresult [] (initial_runner 5))) = Idle
   \<and> feedback (handleCheck (mk_question Pronunciation [''good morning''] ''good morning'')
      (onresult [] (initial_runner 5))) = None"
  by (simp add: handleCheck_def mk_question_def initial_runner_def onresult_def truthy_def)

theorem empty_transcript_no_verdict_witness:
  "handleCheck (mk_question Pronunciation [''good morning''] ''good morning'')
      (initial_runner 5) = initial_runner 5
   \<and> getPronunciationFeedback ''good morning'' None = NothingHeard
   \<and> feedback (handleCheck (mk_question Pronunciation [''good morning''] ''good morning'')
        ((initial_runner 5)\<lparr>selectedOption := Some ''x''\<rparr>)) = Some NothingHeard
   \<and> status (handleCheck (mk_question Pronunciation [''good morning''] ''good morning'')
        ((initial_runner 5)\<lparr>selectedOption := Some ''x''\<rparr>)) = Incorrect"
proof -
  let ?q = "mk_question Pronunciation [''good morning''] ''good morning''"
  let ?st = "(initial_runner 5)\<lparr>selectedOption := Some ''x''\<rparr>"
  have n: "normalize_str ''good morning'' \<noteq> []" by code_simp
  have a: "\<not> truthy (spokenText (initial_runner 5))" "\<not> truthy (spokenText ?st)"
    "\<not> truthy (selectedOption (initial_runner 5))" "truthy (selectedOption ?st)"
    "sensitivity ?st \<noteq> Easy"
    by (simp_all add: initial_runner_def truthy_def)
  have i: "spokenText (initial_runner 5) = None" by (simp add: initial_runner_def)
  from empty_transcript_no_verdict [of ?q "initial_runner 5"] a
  have 1: "handleCheck ?q (initial_runner 5) = initial_runner 5"
    and 2: "getPronunciationFeedback ''good morning'' None = NothingHeard"
    by (simp_all add: mk_question_fields i)
  from empty_transcript_no_verdict [of ?q ?st] a n
  have 3: "feedback (handleCheck ?q ?st) = Some NothingHeard"
    and 4: "status (handleCheck ?q ?st) = Incorrect"
    by (simp_all add: mk_question_fields)
  from 1 2 3 4 show ?thesis by (intro conjI)
qed

lemma set_trim: "set (trim s) \<subseteq> set s"
proof
  fix x assume "x \<in> set (trim s)"
  then have "x \<in> set (dropWhile is_space (rev (dropWhile is_space s)))"
    by (simp add: trim_def)
  then have "x \<in> set (rev (dropWhile is_space s))" by (rule set_dropWhileD)
  then have "x \<in> set (dropWhile is_space s)" by simp
  then show "x \<in> set s" by (rule set_dropWhileD)
qed

lemma normalize_str_no_punctuation: "set (normalize_str s) \<inter> set punctuation = {}"
  using set_trim [of "strip_punctuation (toLowerCase s)"]
  by (auto simp: normalize_str_def strip_punctuation_def)

lemma last_dropWhile_nonempty: "dropWhile P ys \<noteq> [] \<Longrightarrow> last (dropWhile P ys) = last ys"
  using last_appendR [of "dropWhile P ys" "takeWhile P ys"] by simp

lemma trim_ends:
  assumes "trim s \<noteq> []"
  shows "\<not> is_space (hd (trim s)) \<and> \<not> is_space (last (trim s))"
proof -
  let ?d = "dropWhile is_space s"
  let ?e = "dropWhile is_space (rev ?d)"
  have e: "?e \<noteq> []" using assms by (simp add: trim_def)
  have d: "?d \<noteq> []"
  proof
    assume a: "?d = []"
    have "?e = []" unfolding a by simp
    with e show False by (simp only:)
  qed
  have "hd (trim s) = last ?e" using e by (simp add: trim_def hd_rev)
  also have "\<dots> = last (rev ?d)" using e by (rule last_dropWhile_nonempty)
  also have "\<dots> = hd ?d" using d by (simp add: last_rev)
  finally have "\<not> is_space (hd (trim s))" using hd_dropWhile [OF d] by simp
  moreover have "last (trim s) = hd ?e" using e by (simp add: trim_def last_rev)
  then have "\<not> is_space (last (trim s))" using hd_dropWhile [OF e] by simp
  ultimately show ?thesis by simp
qed

lemma getPronunciationFeedback_equal:
  "truthy sp \<Longrightarrow> normalize_str target = normalize_str (or_empty sp) \<Longrightarrow>
     getPronunciationFeedback target sp = PerfectPronunciation"
  by (simp add: getPronunciationFeedback_def)

lemma calculateSimilarity_same: "calculateSimilarity s s = 100"
  by (simp add: calculateSimilarity_eq levenshtein_same)

lemma punctuation_set:
  "set punctuation = {CHR ''.'', CHR '','', CHR ''/'', CHR ''#'', CHR ''!'', CHR ''$'',
     CHR ''%'', CHR ''^'', CHR ''&'', CHR ''*'', CHR '';'', CHR '':'', CHR ''{'', CHR ''}'',
     CHR ''='', CHR ''-'', CHR ''_'', CHR 0x60, CHR ''~'', CHR ''('', CHR '')''}"
  by (simp add: punctuation_def)

text \<open>
  C4. The target and the transcript of a pronunciation question are normalized by lowercasing,
  removing the characters of the punctuation class and trimming the white space at both ends.
  Whenever the normalized strings of a question and of a non-empty transcript are equal, the
  answer is marked correct, the feedback is the perfect-pronunciation message and the
  similarity is \<open>100\<close>, as for the target "I am happy" and the transcript "I am happy!".
\<close>

theorem normalized_match_is_perfect:
  assumes "qtype q = Pronunciation" and "spokenText st = Some s" and "s \<noteq> []"
    and "normalize_str (correctAnswer q) = normalize_str s"
  shows "status (handleCheck q st) = Correct
    \<and> feedback (handleCheck q st) = Some PerfectPronunciation
    \<and> shownFeedback q (handleCheck q st) = Generated (Some PerfectPronunciation)
    \<and> calculateSimilarity (normalize_str (correctAnswer q)) (normalize_str s) = 100
    \<and> normalize_str s = trim (filter (\<lambda>c. c \<notin> set punctuation) (map lower_char s))
    \<and> set (normalize_str s) \<inter> set punctuation = {}
    \<and> (normalize_str s \<noteq> [] \<longrightarrow>
          \<not> is_space (hd (normalize_str s)) \<and> \<not> is_space (last (normalize_str s)))"
proof -
  have t: "truthy (spokenText st)" using assms by (simp add: truthy_Some)
  then have t': "truthy (spokenText st) \<or> truthy (selectedOption st)" by simp
  have c: "pronunciationCorrect (sensitivity st) (normalize_str (correctAnswer q))
             (normalize_str (or_empty (spokenText st)))"
    using assms by (simp add: pronunciationCorrect_def simpleMatch_def or_empty_Some)
  have fb: "getPronunciationFeedback (correctAnswer q) (spokenText st) = PerfectPronunciation"
    using assms t by (simp add: getPronunciationFeedback_equal or_empty_Some)
  have 1: "status (handleCheck q st) = Correct"
    using c by (simp add: handleCheck_pronunciation [OF assms(1) t'] status_settle)
  have 2: "feedback (handleCheck q st) = Some PerfectPronunciation"
    by (simp add: handleCheck_pronunciation [OF assms(1) t'] feedback_settle fb)
  have 3: "shownFeedback q (handleCheck q st) = Generated (Some PerfectPronunciation)"
    using assms(1) 2 by (simp add: shownFeedback_def)
  have 4: "calculateSimilarity (normalize_str (correctAnswer q)) (normalize_str s) = 100"
    using assms(4) by (simp add: calculateSimilarity_same)
  have 5: "normalize_str s = trim (filter (\<lambda>c. c \<notin> set punctuation) (map lower_char s))"
    by (simp add: normalize_str_def strip_punctuation_def toLowerCase_def)
  have 6: "normalize_str s \<noteq> [] \<longrightarrow>
          \<not> is_space (hd (normalize_str s)) \<and> \<not> is_space (last (normalize_str s))"
    using trim_ends [of "strip_punctuation (toLowerCase s)"] by (simp add: normalize_str_def)
  from 1 2 3 4 5 6 normalize_str_no_punctuation [of s] show ?thesis by blast
qed

theorem normalized_match_is_perfect_witness:
  "normalize_str ''I am happy'' = ''i am happy''
   \<and> normalize_str ''I am happy!'' = ''i am happy''
   \<and> status (handleCheck (mk_question Pronunciation [''I am happy''] ''I am happy'')
        (onresult ''I am happy!'' (initial_runner 5))) = Correct
   \<and> feedback (handleCheck (mk_question Pronunciation [''I am happy''] ''I am happy'')
        (onresult ''I am happy!'' (initial_runner 5))) = Some PerfectPronunciation
   \<and> calculateSimilarity (normalize_str ''I am happy'') (normalize_str ''I am happy!'') = 100"
proof -
  let ?q = "mk_question Pronunciation [''I am happy''] ''I am happy''"
  let ?st = "onresult ''I am happy!'' (initial_runner 5)"
  have n1: "normalize_str ''I am happy'' = ''i am happy''" by code_simp
  have n2: "normalize_str ''I am happy!'' = ''i am happy''" by code_simp
  have ne: "''I am happy!'' \<noteq> []" by simp
  have eq: "normalize_str (correctAnswer ?q) = normalize_str ''I am happy!''"
    by (simp only: mk_question_fields n1 n2)
  note w = normalized_match_is_perfect [of ?q ?st "''I am happy!''",
      OF mk_question_fields(1) onresult_fields(1) ne eq]
  from w have 1: "status (handleCheck ?q ?st) = Correct" by (elim conjE)
  from w have 2: "feedback (handleCheck ?q ?st) = Some PerfectPronunciation" by (elim conjE)
  from w have "calculateSimilarity (normalize_str (correctAnswer ?q))
      (normalize_str ''I am happy!'') = 100" by (elim conjE)
  then have 3: "calculateSimilarity (normalize_str ''I am happy'')
      (normalize_str ''I am happy!'') = 100"
    by (simp only: mk_question_fields)
  from n1 n2 1 2 3 show ?thesis by (intro conjI)
qed

lemma formedWord_in_range:
  "\<forall>i\<in>set indices. i < length opts \<Longrightarrow>
     formedWord opts indices = concat (map (\<lambda>i. opts ! i) indices)"
  unfolding formedWord_def by (induction indices) simp_all

lemma str_includes_Nil: "str_includes s []"
  by (cases s) simp_all

text \<open>
  C6. For a word-builder question, the submitted word is the concatenation, in the order the
  learner chose, of the options at the submitted tile indices, and the answer is marked
  correct if and only if this word equals the correct answer exactly. For the options H, E,
  L, P, F, U, L and the answer "HELPFUL", the indices 0 to 6 in order are correct and the
  indices 3, 0, 1, 2, 4, 5, 6 are not.
\<close>

theorem word_builder_verdict:
  assumes "qtype q = WordBuilder"
    and "\<forall>i\<in>set (builtWordIndices st). i < length (options q)"
  shows "(status (handleCheck q st) = Correct \<longleftrightarrow>
            concat (map (\<lambda>i. options q ! i) (builtWordIndices st)) = correctAnswer q)
    \<and> (status (handleCheck q st) = Incorrect \<longleftrightarrow>
            concat (map (\<lambda>i. options q ! i) (builtWordIndices st)) \<noteq> correctAnswer q)
    \<and> selectedOption (handleCheck q st)
          = Some (concat (map (\<lambda>i. options q ! i) (builtWordIndices st)))
    \<and> shownFeedback q (handleCheck q st) = Explanation (explanation q)"
  using assms(1)
  by (simp add: handleCheck_wordBuilder [OF assms(1)] status_settle selectedOption_settle
      formedWord_in_range [OF assms(2)] shownFeedback_def)

theorem word_builder_verdict_witness:
  "status (handleCheck
      (mk_question WordBuilder [''H'', ''E'', ''L'', ''P'', ''F'', ''U'', ''L''] ''HELPFUL'')
      ((initial_runner 5)\<lparr>builtWordIndices := [0, 1, 2, 3, 4, 5, 6]\<rparr>)) = Correct
   \<and> status (handleCheck
      (mk_question WordBuilder [''H'', ''E'', ''L'', ''P'', ''F'', ''U'', ''L''] ''HELPFUL'')
      ((initial_runner 5)\<lparr>builtWordIndices := [3, 0, 1, 2, 4, 5, 6]\<rparr>)) = Incorrect
   \<and> selectedOption (handleCheck
      (mk_question WordBuilder [''H'', ''E'', ''L'', ''P'', ''F'', ''U'', ''L''] ''HELPFUL'')
      ((initial_runner 5)\<lparr>builtWordIndices := [3, 0, 1, 2, 4, 5, 6]\<rparr>)) = Some ''PHELFUL''"
proof -
  let ?q = "mk_question WordBuilder [''H'', ''E'', ''L'', ''P'', ''F'', ''U'', ''L''] ''HELPFUL''"
  let ?a = "(initial_runner 5)\<lparr>builtWordIndices := [0, 1, 2, 3, 4, 5, 6]\<rparr>"
  let ?b = "(initial_runner 5)\<lparr>builtWordIndices := [3, 0, 1, 2, 4, 5, 6]\<rparr>"
  have ra: "\<forall>i\<in>set (builtWordIndices ?a). i < length (options ?q)"
    by (simp add: mk_question_fields)
  have rb: "\<forall>i\<in>set (builtWordIndices ?b). i < length (options ?q)"
    by (simp add: mk_question_fields)
  from word_builder_verdict [OF mk_question_fields(1) ra]
  have 1: "status (handleCheck ?q ?a) = Correct" by (simp add: mk_question_fields)
  from word_builder_verdict [OF mk_question_fields(1) rb]
  have 2: "status (handleCheck ?q ?b) = Incorrect"
    and 3: "selectedOption (handleCheck ?q ?b) = Some ''PHELFUL''"
    by (simp_all add: mk_question_fields)
  from 1 2 3 show ?thesis by (intro conjI)
qed

text \<open>
  C7. For a translation or fill-in-the-blank question with a selected option, the answer is
  marked correct if and only if the selected string equals the correct answer, with no
  normalization: a difference in case or white space makes it incorrect. The text shown is
  the explanation of the question, whether the answer is correct or not.
\<close>

theorem choice_verdict:
  assumes "qtype q = TranslateToEnglish \<or> qtype q = TranslateToBengali \<or> qtype q = FillBlank"
    and "selectedOption st = Some s" and "s \<noteq> []"
  shows "(status (handleCheck q st) = Correct \<longleftrightarrow> s = correctAnswer q)
    \<and> (status (handleCheck q st) = Incorrect \<longleftrightarrow> s \<noteq> correctAnswer q)
    \<and> shownFeedback q (handleCheck q st) = Explanation (explanation q)
    \<and> shownFeedback q st = Explanation (explanation q)"
proof -
  have t: "qtype q \<noteq> Pronunciation" "qtype q \<noteq> WordBuilder" using assms(1) by auto
  have s: "truthy (selectedOption st)" using assms by (simp add: truthy_Some)
  show ?thesis
    using t assms(2)
    by (simp add: handleCheck_choice [OF t s] status_settle shownFeedback_def or_empty_Some)
qed

theorem choice_verdict_witness:
  "status (handleCheck (mk_question FillBlank [''Hello'', ''hello'', ''Hello '', ''Bye''] ''Hello'')
      ((initial_runner 5)\<lparr>selectedOption := Some ''Hello''\<rparr>)) = Correct
   \<and> status (handleCheck (mk_question FillBlank [''Hello'', ''hello'', ''Hello '', ''Bye''] ''Hello'')
      ((initial_runner 5)\<lparr>selectedOption := Some ''hello''\<rparr>)) = Incorrect
   \<and> status (handleCheck (mk_question FillBlank [''Hello'', ''hello'', ''Hello '', ''Bye''] ''Hello'')
      ((initial_runner 5)\<lparr>selectedOption := Some ''Hello ''\<rparr>)) = Incorrect
   \<and> shownFeedback (mk_question FillBlank [''Hello'', ''hello'', ''Hello '', ''Bye''] ''Hello'')
      (handleCheck (mk_question FillBlank [''Hello'', ''hello'', ''Hello '', ''Bye''] ''Hello'')
        ((initial_runner 5)\<lparr>selectedOption := Some ''hello''\<rparr>)) = Explanation ''explanation''"
proof -
  let ?q = "mk_question FillBlank [''Hello'', ''hello'', ''Hello '', ''Bye''] ''Hello''"
  have k: "qtype ?q = TranslateToEnglish \<or> qtype ?q = TranslateToBengali \<or> qtype ?q = FillBlank"
    by (simp add: mk_question_fields)
  have sel: "selectedOption ((initial_runner 5)\<lparr>selectedOption := Some x\<rparr>) = Some x" for x
    by simp
  from choice_verdict [OF k sel, of "''Hello''"]
  have 1: "status (handleCheck ?q ((initial_runner 5)\<lparr>selectedOption := Some ''Hello''\<rparr>))
      = Correct"
    by (simp add: mk_question_fields)
  from choice_verdict [OF k sel, of "''hello''"]
  have 2: "status (handleCheck ?q ((initial_runner 5)\<lparr>selectedOption := Some ''hello''\<rparr>))
      = Incorrect"
    and 4: "shownFeedback ?q
      (handleCheck ?q ((initial_runner 5)\<lparr>selectedOption := Some ''hello''\<rparr>))
      = Explanation ''explanation''"
    by (simp_all add: mk_question_fields)
  from choice_verdict [OF k sel, of "''Hello ''"]
  have 3: "status (handleCheck ?q ((initial_runner 5)\<lparr>selectedOption := Some ''Hello ''\<rparr>))
      = Incorrect"
    by (simp add: mk_question_fields)
  from 1 2 3 4 show ?thesis by (intro conjI)
qed

text \<open>
  C9, as amended. A transcript of a pronunciation question that is not empty as raw text but
  normalizes to the empty string (punctuation and white space only) is accepted under Easy
  for every target, because the empty string occurs in every normalized target; under Medium
  and Hard it is rejected for every target whose normalization is not the empty string.
\<close>

theorem empty_normalized_transcript:
  assumes "qtype q = Pronunciation" and "spokenText st = Some s" and "s \<noteq> []"
    and "normalize_str s = []"
  shows "sublist (normalize_str s) (normalize_str (correctAnswer q))
    \<and> (sensitivity st = Easy \<longrightarrow> status (handleCheck q st) = Correct)
    \<and> (sensitivity st \<noteq> Easy \<and> normalize_str (correctAnswer q) \<noteq> [] \<longrightarrow>
          status (handleCheck q st) = Incorrect)"
proof -
  have t: "truthy (spokenText st) \<or> truthy (selectedOption st)"
    using assms by (simp add: truthy_Some)
  have st: "status (handleCheck q st) =
          (if pronunciationCorrect (sensitivity st) (normalize_str (correctAnswer q)) []
           then Correct else Incorrect)"
    using assms by (simp add: handleCheck_pronunciation [OF assms(1) t] status_settle
        or_empty_Some)
  have easy: "pronunciationCorrect Easy target []" for target
    by (simp add: pronunciationCorrect_def simpleMatch_def str_includes_Nil)
  have other: "\<not> pronunciationCorrect sens target []"
    if "sens \<noteq> Easy" and "target \<noteq> []" for sens target
    using that
    by (auto simp: pronunciationCorrect_def simpleMatch_def calculateSimilarity_Nil_right
        threshold_of_def)
  show ?thesis
    using assms(4) easy other by (auto simp: st)
qed

theorem empty_normalized_transcript_witness:
  "normalize_str ''!!!'' = []
   \<and> status (handleCheck (mk_question Pronunciation [''good morning''] ''good morning'')
        (onresult ''!!!'' ((initial_runner 5)\<lparr>sensitivity := Easy\<rparr>))) = Correct
   \<and> status (handleCheck (mk_question Pronunciation [''good morning''] ''good morning'')
        (onresult ''!!!'' ((initial_runner 5)\<lparr>sensitivity := Medium\<rparr>))) = Incorrect
   \<and> status (handleCheck (mk_question Pronunciation [''good morning''] ''good morning'')
        (onresult ''!!!'' ((initial_runner 5)\<lparr>sensitivity := Hard\<rparr>))) = Incorrect"
proof -
  let ?q = "mk_question Pronunciation [''good morning''] ''good morning''"
  have n: "normalize_str ''!!!'' = []" by code_simp
  have ne: "''!!!'' \<noteq> []" by simp
  have tn: "normalize_str (correctAnswer ?q) \<noteq> []"
    unfolding mk_question_fields by code_simp
  have sens: "sensitivity (onresult ''!!!'' ((initial_runner 5)\<lparr>sensitivity := x\<rparr>)) = x" for x
    by (simp add: onresult_def)
  note w = empty_normalized_transcript [OF mk_question_fields(1) onresult_fields(1) ne n]
  from w [of "[''good morning'']" "''good morning''" "(initial_runner 5)\<lparr>sensitivity := Easy\<rparr>"]
  have 1: "status (handleCheck ?q (onresult ''!!!'' ((initial_runner 5)\<lparr>sensitivity := Easy\<rparr>)))
      = Correct"
    by (simp add: sens)
  from w [of "[''good morning'']" "''good morning''" "(initial_runner 5)\<lparr>sensitivity := Medium\<rparr>"] tn
  have 2: "status (handleCheck ?q (onresult ''!!!'' ((initial_runner 5)\<lparr>sensitivity := Medium\<rparr>)))
      = Incorrect"
    by (simp add: sens)
  from w [of "[''good morning'']" "''good morning''" "(initial_runner 5)\<lparr>sensitivity := Hard\<rparr>"] tn
  have 3: "status (handleCheck ?q (onresult ''!!!'' ((initial_runner 5)\<lparr>sensitivity := Hard\<rparr>)))
      = Incorrect"
    by (simp add: sens)
  from n 1 2 3 show ?thesis by (intro conjI)
qed

text \<open>
  C9 as stated fails for a non-empty target that normalizes to the empty string: the target
  "!" and the transcript "!!!" have the same normalization, so the comparison of line 239
  marks the answer correct under Medium and Hard as well.
\<close>

theorem empty_normalized_transcript_counterexample:
  "''!'' \<noteq> [] \<and> ''!!!'' \<noteq> [] \<and> normalize_str ''!!!'' = []
   \<and> status (handleCheck (mk_question Pronunciation [''!''] ''!'')
        (onresult ''!!!'' ((initial_runner 5)\<lparr>sensitivity := Medium\<rparr>))) = Correct
   \<and> status (handleCheck (mk_question Pronunciation [''!''] ''!'')
        (onresult ''!!!'' ((initial_runner 5)\<lparr>sensitivity := Hard\<rparr>))) = Correct"
proof -
  let ?q = "mk_question Pronunciation [''!''] ''!''"
  have n1: "normalize_str ''!!!'' = []" by code_simp
  have n2: "normalize_str ''!'' = []" by code_simp
  have t: "truthy (spokenText (onresult ''!!!'' st)) \<or> truthy (selectedOption (onresult ''!!!'' st))"
    for st
    by (simp add: onresult_fields truthy_Some)
  have c: "pronunciationCorrect sens [] []" for sens
    by (simp add: pronunciationCorrect_def simpleMatch_def)
  have v: "status (handleCheck ?q (onresult ''!!!'' st)) = Correct" for st
    by (simp add: handleCheck_pronunciation [OF mk_question_fields(1) t] status_settle
        mk_question_fields onresult_fields or_empty_Some n1 n2 c)
  show ?thesis using n1 v by simp
qed

lemma waits_cong:
  "spokenText st1 = spokenText st2 \<Longrightarrow> selectedOption st1 = selectedOption st2 \<Longrightarrow>
     waits q st1 = waits q st2"
  by (simp add: waits_def)

lemma verdict_fields:
  "\<not> waits q st \<Longrightarrow>
     status (handleCheck q st) =
       (if qtype q = Pronunciation then
          (if pronunciationCorrect (sensitivity st) (normalize_str (correctAnswer q))
               (normalize_str (or_empty (spokenText st))) then Correct else Incorrect)
        else if qtype q = WordBuilder then
          (if formedWord (options q) (builtWordIndices st) = correctAnswer q
           then Correct else Incorrect)
        else (if or_empty (selectedOption st) = correctAnswer q then Correct else Incorrect))
   \<and> feedback (handleCheck q st) =
       (if qtype q = Pronunciation
        then Some (getPronunciationFeedback (correctAnswer q) (spokenText st)) else None)"
  by (auto simp: waits_def handleCheck_def Let_def status_settle feedback_settle)

text \<open>
  C10. The verdict is a function of the question, the submission (transcript, selected option
  or tile indices) and the sensitivity: in two states that agree on these, the handler
  either returns early in both, leaving each as it is, or it sets the same status, the same
  feedback and the same shown text in both. The score, the hearts, the previous status and
  the previous feedback have no influence.
\<close>

theorem verdict_depends_on_inputs_only:
  assumes "spokenText st1 = spokenText st2" and "selectedOption st1 = selectedOption st2"
    and "builtWordIndices st1 = builtWordIndices st2" and "sensitivity st1 = sensitivity st2"
  shows "(waits q st1 \<longleftrightarrow> waits q st2)
    \<and> (waits q st1 \<longrightarrow> handleCheck q st1 = st1 \<and> handleCheck q st2 = st2)
    \<and> (\<not> waits q st1 \<longrightarrow>
          status (handleCheck q st1) = status (handleCheck q st2)
          \<and> status (handleCheck q st1) \<noteq> Idle
          \<and> feedback (handleCheck q st1) = feedback (handleCheck q st2)
          \<and> shownFeedback q (handleCheck q st1) = shownFeedback q (handleCheck q st2))"
proof -
  have w: "waits q st1 = waits q st2" using assms(1,2) by (rule waits_cong)
  have early: "handleCheck q st1 = st1 \<and> handleCheck q st2 = st2" if "waits q st1"
    using that w by (simp add: handleCheck_waits)
  have late: "status (handleCheck q st1) = status (handleCheck q st2)
          \<and> status (handleCheck q st1) \<noteq> Idle
          \<and> feedback (handleCheck q st1) = feedback (handleCheck q st2)
          \<and> shownFeedback q (handleCheck q st1) = shownFeedback q (handleCheck q st2)"
    if "\<not> waits q st1"
  proof -
    from that w have n2: "\<not> waits q st2" by simp
    show ?thesis
      using verdict_fields [OF that] verdict_fields [OF n2] assms
      by (simp add: shownFeedback_def)
  qed
  from w early late show ?thesis by blast
qed

theorem verdict_depends_on_inputs_only_witness:
  "status (handleCheck (mk_question Pronunciation [''good morning''] ''good morning'')
      (onresult ''good morning'' (initial_runner 5)))
   = status (handleCheck (mk_question Pronunciation [''good morning''] ''good morning'')
      (onresult ''good morning''
        ((initial_runner 1)\<lparr>score := 40, feedback := Some LengthMismatch\<rparr>)))
   \<and> feedback (handleCheck (mk_question Pronunciation [''good morning''] ''good morning'')
      (onresult ''good morning'' (initial_runner 5)))
   = feedback (handleCheck (mk_question Pronunciation [''good morning''] ''good morning'')
      (onresult ''good morning''
        ((initial_runner 1)\<lparr>score := 40, feedback := Some LengthMismatch\<rparr>)))"
proof -
  let ?q = "mk_question Pronunciation [''good morning''] ''good morning''"
  let ?a = "onresult ''good morning'' (initial_runner 5)"
  let ?b = "onresult ''good morning''
        ((initial_runner 1)\<lparr>score := 40, feedback := Some LengthMismatch\<rparr>)"
  have eqs: "spokenText ?a = spokenText ?b" "selectedOption ?a = selectedOption ?b"
    "builtWordIndices ?a = builtWordIndices ?b" "sensitivity ?a = sensitivity ?b"
    by (simp_all add: onresult_def initial_runner_def)
  have nw: "\<not> waits ?q ?a"
    by (simp add: waits_def mk_question_fields onresult_fields truthy_Some)
  from verdict_depends_on_inputs_only [OF eqs, of ?q] nw
  have "status (handleCheck ?q ?a) = status (handleCheck ?q ?b)"
    and "feedback (handleCheck ?q ?a) = feedback (handleCheck ?q ?b)"
    by blast+
  then show ?thesis by (intro conjI)
qed

lemma split_ws_single:
  assumes "dropWhile (\<lambda>c. \<not> is_space c) s = []"
  shows "split_ws s = [s]"
proof -
  note split_ws.simps [of s]
  then show ?thesis by (simp only: assms simp_thms if_True)
qed

lemma split_ws_step:
  assumes "dropWhile (\<lambda>c. \<not> is_space c) s \<noteq> []"
  shows "split_ws s = takeWhile (\<lambda>c. \<not> is_space c) s
        # split_ws (dropWhile is_space (dropWhile (\<lambda>c. \<not> is_space c) s))"
proof -
  note split_ws.simps [of s]
  then show ?thesis by (simp only: assms simp_thms if_False)
qed

lemma split_ws_no_empty:
  "s \<noteq> [] \<Longrightarrow> \<not> is_space (hd s) \<Longrightarrow> \<not> is_space (last s) \<Longrightarrow> [] \<notin> set (split_ws s)"
proof (induction s rule: split_ws.induct)
  case (1 s)
  let ?w = "takeWhile (\<lambda>c. \<not> is_space c) s"
  let ?r = "dropWhile (\<lambda>c. \<not> is_space c) s"
  let ?rest = "dropWhile is_space ?r"
  show ?case
  proof (cases "?r = []")
    case True
    from split_ws_single [OF True] "1.prems"(1) show ?thesis by simp
  next
    case False
    have w: "?w \<noteq> []" using "1.prems"(1,2) by (simp add: takeWhile_eq_Nil_iff)
    have last_r: "last ?r = last s" using False by (rule last_dropWhile_nonempty)
    have rest: "?rest \<noteq> []"
    proof
      assume "?rest = []"
      then have "\<forall>x\<in>set ?r. is_space x" by (simp only: dropWhile_eq_Nil_conv)
      moreover have "last ?r \<in> set ?r" using False by (rule last_in_set)
      ultimately have "is_space (last ?r)" by blast
      then have "is_space (last s)" by (simp only: last_r)
      with "1.prems"(3) show False by blast
    qed
    have hd_rest: "\<not> is_space (hd ?rest)" using hd_dropWhile [OF rest] .
    have "last ?rest = last ?r" using rest by (rule last_dropWhile_nonempty)
    then have e: "last ?rest = last s" by (simp only: last_r)
    have last_rest: "\<not> is_space (last ?rest)" unfolding e by (rule "1.prems"(3))
    have tail: "[] \<notin> set (split_ws ?rest)"
      using "1.IH" [OF False rest hd_rest last_rest] .
    have "set (split_ws s) = insert ?w (set (split_ws ?rest))"
      by (simp only: split_ws_step [OF False] list.set)
    with tail w show ?thesis by auto
  qed
qed

lemma split_ws_normalize_str_no_empty:
  "normalize_str s \<noteq> [] \<Longrightarrow> [] \<notin> set (split_ws (normalize_str s))"
  using trim_ends [of "strip_punctuation (toLowerCase s)"]
  by (simp add: normalize_str_def split_ws_no_empty)

lemma first_mismatch_Some:
  "first_mismatch ts ss = Some (t, s) \<Longrightarrow>
     \<exists>i. i < length ts \<and> i < length ss \<and> ts ! i = t \<and> ss ! i = s \<and> t \<noteq> s
        \<and> (\<forall>j<i. ts ! j = ss ! j)"
proof (induction ts ss rule: first_mismatch.induct)
  case (1 t0 ts s0 ss)
  show ?case
  proof (cases "t0 = s0")
    case False
    with "1.prems" have "t = t0" "s = s0" by simp_all
    with False show ?thesis by (intro exI [of _ 0]) simp
  next
    case True
    with "1.prems" have "first_mismatch ts ss = Some (t, s)" by simp
    from "1.IH" [OF _ this] True obtain i where i: "i < length ts" "i < length ss"
      "ts ! i = t" "ss ! i = s" "t \<noteq> s" "\<forall>j<i. ts ! j = ss ! j" by auto
    have "\<forall>j<Suc i. (t0 # ts) ! j = (s0 # ss) ! j"
      using True i(6) by (auto simp: nth_Cons split: nat.splits)
    with i show ?thesis by (intro exI [of _ "Suc i"]) simp
  qed
qed simp_all

lemma first_mismatch_None:
  "first_mismatch ts ss = None \<Longrightarrow> i < length ts \<Longrightarrow> i < length ss \<Longrightarrow> ts ! i = ss ! i"
proof (induction ts ss arbitrary: i rule: first_mismatch.induct)
  case (1 t0 ts s0 ss)
  from "1.prems"(1) have eq: "t0 = s0" and rest: "first_mismatch ts ss = None"
    by (simp_all split: if_splits)
  show ?case
  proof (cases i)
    case 0
    with eq show ?thesis by simp
  next
    case (Suc k)
    with "1.prems" "1.IH" [OF _ rest, of k] eq show ?thesis by simp
  qed
qed simp_all


lemma feedback_unfold:
  assumes "s \<noteq> []" and "normalize_str target \<noteq> normalize_str s"
  shows "getPronunciationFeedback target (Some s) =
    (if truthy (List.find (\<lambda>w. w \<notin> set (split_ws (normalize_str s)))
                  (split_ws (normalize_str target)))
     then WordNotClear (or_empty (List.find (\<lambda>w. w \<notin> set (split_ws (normalize_str s)))
                  (split_ws (normalize_str target))))
     else if 2 < \<bar>int (length (split_ws (normalize_str target)))
                  - int (length (split_ws (normalize_str s)))\<bar>
       then LengthMismatch
     else (case first_mismatch (split_ws (normalize_str target)) (split_ws (normalize_str s)) of
             Some (t, s') \<Rightarrow> if levenshtein t s' \<le> 2 then SlightlyOff t else SaidInstead s' t
           | None \<Rightarrow> PronounceClearly))"
  using assms
  by (simp add: getPronunciationFeedback_def truthy_Some or_empty_Some Let_def)

lemma feedback_missing_word:
  fixes target s :: string
  defines "tw \<equiv> split_ws (normalize_str target)"
    and "sw \<equiv> split_ws (normalize_str s)"
  assumes "s \<noteq> []" and "normalize_str target \<noteq> normalize_str s"
    and "normalize_str target \<noteq> []" and "\<exists>w\<in>set tw. w \<notin> set sw"
  shows "\<exists>i<length tw. tw ! i \<notin> set sw \<and> (\<forall>j<i. tw ! j \<in> set sw)
           \<and> getPronunciationFeedback target (Some s) = WordNotClear (tw ! i)"
proof -
  from assms(6) have "List.find (\<lambda>w. w \<notin> set sw) tw \<noteq> None"
    by (auto simp: find_None_iff)
  then obtain w where f: "List.find (\<lambda>w. w \<notin> set sw) tw = Some w" by blast
  then obtain i where i: "i < length tw" "tw ! i \<notin> set sw" "w = tw ! i"
    "\<forall>j<i. \<not> tw ! j \<notin> set sw"
    unfolding find_Some_iff by blast
  have "w \<in> set tw" using i(1,3) by simp
  moreover have "[] \<notin> set tw"
    unfolding tw_def using assms(5) by (rule split_ws_normalize_str_no_empty)
  ultimately have "w \<noteq> []" by blast
  then have "getPronunciationFeedback target (Some s) = WordNotClear w"
    using f unfolding feedback_unfold [OF assms(3,4)] tw_def sw_def
    by (simp add: truthy_Some or_empty_Some)
  with i show ?thesis by (intro exI [of _ i]) simp
qed

lemma feedback_all_present:
  fixes target s :: string
  defines "tw \<equiv> split_ws (normalize_str target)"
    and "sw \<equiv> split_ws (normalize_str s)"
  assumes "s \<noteq> []" and "normalize_str target \<noteq> normalize_str s"
    and "\<forall>w\<in>set tw. w \<in> set sw"
  shows "getPronunciationFeedback target (Some s) =
    (if 2 < \<bar>int (length tw) - int (length sw)\<bar> then LengthMismatch
     else (case first_mismatch tw sw of
             Some (t, s') \<Rightarrow> if levenshtein t s' \<le> 2 then SlightlyOff t else SaidInstead s' t
           | None \<Rightarrow> PronounceClearly))"
proof -
  from assms(5) have "List.find (\<lambda>w. w \<notin> set sw) tw = None"
    by (auto simp: find_None_iff)
  then show ?thesis
    unfolding feedback_unfold [OF assms(3,4)] tw_def sw_def
    by (simp add: truthy_None)
qed

section \<open>The diagnostic feedback\<close>

text \<open>
  C5, as amended. For a pronunciation question whose target does not normalize to the empty
  string, and a non-empty transcript that does not match it exactly, the stored feedback is
  chosen by the first applicable rule, whatever the sensitivity and the verdict are:
  (1) if some word of the normalized target is absent from the words of the transcript, the
  message names the first such word in target order; (2) else, if the word counts differ by
  more than 2, the length-mismatch message; (3) else, at the first position below both
  lengths where the words differ, the slightly-off message naming the target word if the
  edit distance of the two words is at most 2, otherwise the you-said-instead message with
  both words; (4) else the pronounce-more-clearly message.
\<close>

theorem feedback_rules:
  fixes q :: question and st :: runner and s :: string
  defines "tw \<equiv> split_ws (normalize_str (correctAnswer q))"
    and "sw \<equiv> split_ws (normalize_str s)"
    and "fb \<equiv> getPronunciationFeedback (correctAnswer q) (Some s)"
  assumes "qtype q = Pronunciation" and "spokenText st = Some s" and "s \<noteq> []"
    and "normalize_str (correctAnswer q) \<noteq> normalize_str s"
    and "normalize_str (correctAnswer q) \<noteq> []"
  shows "feedback (handleCheck q st) = Some fb
    \<and> ((\<exists>w\<in>set tw. w \<notin> set sw) \<longrightarrow>
          (\<exists>i<length tw. tw ! i \<notin> set sw \<and> (\<forall>j<i. tw ! j \<in> set sw)
             \<and> fb = WordNotClear (tw ! i)))
    \<and> ((\<forall>w\<in>set tw. w \<in> set sw) \<and> 2 < \<bar>int (length tw) - int (length sw)\<bar> \<longrightarrow>
          fb = LengthMismatch)
    \<and> ((\<forall>w\<in>set tw. w \<in> set sw) \<and> \<bar>int (length tw) - int (length sw)\<bar> \<le> 2 \<longrightarrow>
          ((\<exists>i<min (length tw) (length sw). tw ! i \<noteq> sw ! i) \<longrightarrow>
             (\<exists>i<min (length tw) (length sw). tw ! i \<noteq> sw ! i \<and> (\<forall>j<i. tw ! j = sw ! j)
                \<and> fb = (if levenshtein (tw ! i) (sw ! i) \<le> 2 then SlightlyOff (tw ! i)
                        else SaidInstead (sw ! i) (tw ! i))))
          \<and> ((\<forall>i<min (length tw) (length sw). tw ! i = sw ! i) \<longrightarrow> fb = PronounceClearly))"
proof (intro conjI impI)
  have t: "truthy (spokenText st) \<or> truthy (selectedOption st)"
    using assms(5,6) by (simp add: truthy_Some)
  show "feedback (handleCheck q st) = Some fb"
    using assms(5) by (simp add: handleCheck_pronunciation [OF assms(4) t] feedback_settle fb_def)
next
  assume "\<exists>w\<in>set tw. w \<notin> set sw"
  then show "\<exists>i<length tw. tw ! i \<notin> set sw \<and> (\<forall>j<i. tw ! j \<in> set sw)
             \<and> fb = WordNotClear (tw ! i)"
    unfolding tw_def sw_def fb_def by (rule feedback_missing_word [OF assms(6,7,8)])
next
  assume a: "(\<forall>w\<in>set tw. w \<in> set sw) \<and> 2 < \<bar>int (length tw) - int (length sw)\<bar>"
  then have "\<forall>w\<in>set tw. w \<in> set sw" by blast
  from feedback_all_present [OF assms(6,7) this [unfolded tw_def sw_def]] a
  show "fb = LengthMismatch" by (simp add: fb_def tw_def sw_def)
next
  assume a: "(\<forall>w\<in>set tw. w \<in> set sw) \<and> \<bar>int (length tw) - int (length sw)\<bar> \<le> 2"
    and m: "\<exists>i<min (length tw) (length sw). tw ! i \<noteq> sw ! i"
  from a have p: "\<forall>w\<in>set tw. w \<in> set sw" by blast
  from feedback_all_present [OF assms(6,7) p [unfolded tw_def sw_def]] a
  have fb: "fb = (case first_mismatch tw sw of
             Some (t, s') \<Rightarrow> if levenshtein t s' \<le> 2 then SlightlyOff t else SaidInstead s' t
           | None \<Rightarrow> PronounceClearly)"
    by (simp add: fb_def tw_def sw_def)
  have "first_mismatch tw sw \<noteq> None"
  proof
    assume n: "first_mismatch tw sw = None"
    from m obtain i where "i < length tw" "i < length sw" "tw ! i \<noteq> sw ! i" by auto
    with first_mismatch_None [OF n, of i] show False by simp
  qed
  then obtain t s' where f: "first_mismatch tw sw = Some (t, s')" by auto
  from first_mismatch_Some [OF f] obtain i where i: "i < length tw" "i < length sw"
    "tw ! i = t" "sw ! i = s'" "t \<noteq> s'" "\<forall>j<i. tw ! j = sw ! j" by blast
  have "fb = (if levenshtein (tw ! i) (sw ! i) \<le> 2 then SlightlyOff (tw ! i)
              else SaidInstead (sw ! i) (tw ! i))"
    using fb f i(3,4) by simp
  with i show "\<exists>i<min (length tw) (length sw). tw ! i \<noteq> sw ! i \<and> (\<forall>j<i. tw ! j = sw ! j)
                \<and> fb = (if levenshtein (tw ! i) (sw ! i) \<le> 2 then SlightlyOff (tw ! i)
                        else SaidInstead (sw ! i) (tw ! i))"
    by (intro exI [of _ i]) simp
next
  assume a: "(\<forall>w\<in>set tw. w \<in> set sw) \<and> \<bar>int (length tw) - int (length sw)\<bar> \<le> 2"
    and e: "\<forall>i<min (length tw) (length sw). tw ! i = sw ! i"
  from a have p: "\<forall>w\<in>set tw. w \<in> set sw" by blast
  from feedback_all_present [OF assms(6,7) p [unfolded tw_def sw_def]] a
  have fb: "fb = (case first_mismatch tw sw of
             Some (t, s') \<Rightarrow> if levenshtein t s' \<le> 2 then SlightlyOff t else SaidInstead s' t
           | None \<Rightarrow> PronounceClearly)"
    by (simp add: fb_def tw_def sw_def)
  have "first_mismatch tw sw = None"
  proof (cases "first_mismatch tw sw")
    case None
    then show ?thesis .
  next
    case (Some ts)
    obtain t s' where "ts = (t, s')" by (cases ts)
    with Some have "first_mismatch tw sw = Some (t, s')" by simp
    from first_mismatch_Some [OF this] obtain i where "i < length tw" "i < length sw"
      "tw ! i = t" "sw ! i = s'" "t \<noteq> s'" by blast
    with e show ?thesis by simp
  qed
  with fb show "fb = PronounceClearly" by simp
qed


text \<open>
  C5 as stated fails for a target that normalizes to the empty string: its word sequence is
  the single empty word, which no transcript word equals, but line 63 tests the found word
  for truthiness and the empty word is falsy, so rule (1) is passed over. For the target "!"
  and the transcript "hi" the feedback is the slightly-off message for the empty word.
\<close>

theorem feedback_rules_counterexample:
  "[] \<in> set (split_ws (normalize_str ''!''))
   \<and> [] \<notin> set (split_ws (normalize_str ''hi''))
   \<and> getPronunciationFeedback ''!'' (Some ''hi'') = SlightlyOff []
   \<and> getPronunciationFeedback ''!'' (Some ''hi'') \<noteq> WordNotClear []
   \<and> feedback (handleCheck (mk_question Pronunciation [''!''] ''!'')
        (onresult ''hi'' (initial_runner 5))) = Some (SlightlyOff [])"
proof -
  have 1: "split_ws (normalize_str ''!'') = [[]]" by code_simp
  have 2: "split_ws (normalize_str ''hi'') = [''hi'']" by code_simp
  have 3: "getPronunciationFeedback ''!'' (Some ''hi'') = SlightlyOff []" by code_simp
  have t: "truthy (spokenText (onresult ''hi'' (initial_runner 5)))
      \<or> truthy (selectedOption (onresult ''hi'' (initial_runner 5)))"
    by (simp add: onresult_fields truthy_Some)
  have 4: "feedback (handleCheck (mk_question Pronunciation [''!''] ''!'')
        (onresult ''hi'' (initial_runner 5))) = Some (SlightlyOff [])"
    by (simp add: handleCheck_pronunciation [OF mk_question_fields(1) t] feedback_settle
        mk_question_fields onresult_fields 3)
  show ?thesis by (simp add: 1 2 3 4)
qed

theorem feedback_rules_witness:
  "feedback (handleCheck
      (mk_question Pronunciation [''I am very happy today''] ''I am very happy today'')
      (onresult ''I am happy today'' (initial_runner 5))) = Some (WordNotClear ''very'')
   \<and> getPronunciationFeedback ''a'' (Some ''a a a a'') = LengthMismatch
   \<and> getPronunciationFeedback ''a b'' (Some ''a b c'') = PronounceClearly"
proof -
  let ?t = "''I am very happy today''"
  let ?s = "''I am happy today''"
  let ?q = "mk_question Pronunciation [?t] ?t"
  let ?st = "onresult ?s (initial_runner 5)"
  have tw: "split_ws (normalize_str ?t) = [''i'', ''am'', ''very'', ''happy'', ''today'']"
    by code_simp
  have sw: "split_ws (normalize_str ?s) = [''i'', ''am'', ''happy'', ''today'']"
    by code_simp
  have ne: "?s \<noteq> []" by simp
  have d: "normalize_str (correctAnswer ?q) \<noteq> normalize_str ?s"
    unfolding mk_question_fields by code_simp
  have n: "normalize_str (correctAnswer ?q) \<noteq> []"
    unfolding mk_question_fields by code_simp
  note w = feedback_rules [OF mk_question_fields(1) onresult_fields(1) ne d n,
      unfolded mk_question_fields tw sw]
  have ex: "\<exists>w\<in>set [''i'', ''am'', ''very'', ''happy'', ''today''].
      w \<notin> set [''i'', ''am'', ''happy'', ''today'']" by simp
  from w [of "initial_runner 5"] ex
  obtain i where i: "i < length [''i'', ''am'', ''very'', ''happy'', ''today'']"
    "[''i'', ''am'', ''very'', ''happy'', ''today''] ! i \<notin> set [''i'', ''am'', ''happy'', ''today'']"
    "getPronunciationFeedback ?t (Some ?s)
       = WordNotClear ([''i'', ''am'', ''very'', ''happy'', ''today''] ! i)"
    by blast
  from i(1) have "i = 0 \<or> i = 1 \<or> i = 2 \<or> i = 3 \<or> i = 4" by simp arith
  with i(2) have "i = 2" by auto
  with i(3) have fb: "getPronunciationFeedback ?t (Some ?s) = WordNotClear ''very''" by simp
  from w [of "initial_runner 5"] have "feedback (handleCheck ?q ?st)
      = Some (getPronunciationFeedback ?t (Some ?s))" by blast
  with fb have 1: "feedback (handleCheck ?q ?st) = Some (WordNotClear ''very'')" by simp
  have 2: "getPronunciationFeedback ''a'' (Some ''a a a a'') = LengthMismatch" by code_simp
  have 3: "getPronunciationFeedback ''a b'' (Some ''a b c'') = PronounceClearly" by code_simp
  from 1 2 3 show ?thesis by (intro conjI)
qed

end
